theory Spec2Isabelle
  imports Complex_Main "HOL-Library.Char_ord" "HOL-Library.List_Lexorder"
begin

section \<open>Text helpers of the Python source\<close>

text \<open>
  Python \<^verbatim>\<open>str\<close> values are modelled as \<^typ>\<open>string\<close>, one \<^typ>\<open>char\<close> per code point;
  the model therefore covers labels and cells whose code points are below 256.
  \<^verbatim>\<open>str.strip()\<close> and the regular-expression class \<^verbatim>\<open>\s\<close> both use Python's
  whitespace test, which in that range accepts TAB..CR, FS..US, SPACE, NEL and NBSP.
\<close>

definition is_space :: "char \<Rightarrow> bool" where
  "is_space c = ((of_char c :: nat) \<in> {9, 10, 11, 12, 13, 28, 29, 30, 31, 32, 133, 160})"

text \<open>\<^verbatim>\<open>name.strip()\<close>\<close>

definition py_strip :: "string \<Rightarrow> string" where
  "py_strip s = rev (dropWhile is_space (rev (dropWhile is_space s)))"

text \<open>
  \<^verbatim>\<open>re.sub(r"[C]+", repl, s)\<close> for a character class \<open>C\<close> (given as a predicate):
  scanning from the left, every maximal run of class characters is replaced by \<open>repl\<close>.
\<close>

function re_sub_plus :: "(char \<Rightarrow> bool) \<Rightarrow> string \<Rightarrow> string \<Rightarrow> string" where
  "re_sub_plus P r [] = []"
| "re_sub_plus P r (c # cs) =
     (if P c then r @ re_sub_plus P r (dropWhile P cs) else c # re_sub_plus P r cs)"
  by pat_completeness auto
termination
  by (relation "measure (\<lambda>(P, r, s). length s)")
     (auto intro: le_imp_less_Suc length_dropWhile_le)

text \<open>The three character classes of \<^verbatim>\<open>to_snake_case\<close>.\<close>

definition is_space_or_hyphen :: "char \<Rightarrow> bool" where
  "is_space_or_hyphen c = (is_space c \<or> c = CHR ''-'')"

definition is_word_char :: "char \<Rightarrow> bool" where
  "is_word_char c =
     (let n = (of_char c :: nat)
      in (48 \<le> n \<and> n \<le> 57) \<or> (97 \<le> n \<and> n \<le> 122) \<or> (65 \<le> n \<and> n \<le> 90) \<or> c = CHR ''_'')"

definition is_underscore :: "char \<Rightarrow> bool" where
  "is_underscore c = (c = CHR ''_'')"

text \<open>
  \<^verbatim>\<open>str.lower()\<close> on code points below 256: the ASCII capitals and the Latin-1 capitals
  (all of 192..222 except the multiplication sign 215) move up by 32.
\<close>

definition py_lower_char :: "char \<Rightarrow> char" where
  "py_lower_char c =
     (let n = (of_char c :: nat)
      in if (65 \<le> n \<and> n \<le> 90) \<or> (192 \<le> n \<and> n \<le> 222 \<and> n \<noteq> 215)
         then char_of (n + 32) else c)"

definition py_lower :: "string \<Rightarrow> string" where
  "py_lower s = map py_lower_char s"

text \<open>
  \<^verbatim>\<open>
  def to_snake_case(name):
      name = name.strip()
      name = re.sub(r"[\s\-]+", "_", name)
      name = re.sub(r"[^0-9a-zA-Z_]+", "", name)
      name = re.sub(r"_+", "_", name)
      return name.lower()
  \<close>
\<close>

definition to_snake_case :: "string \<Rightarrow> string" where
  "to_snake_case name =
     (let name1 = py_strip name;
          name2 = re_sub_plus is_space_or_hyphen ''_'' name1;
          name3 = re_sub_plus (\<lambda>c. \<not> is_word_char c) [] name2;
          name4 = re_sub_plus is_underscore ''_'' name3
      in py_lower name4)"

text \<open>\<^verbatim>\<open>keyword in text\<close> for strings: \<open>keyword\<close> occurs as a contiguous substring.\<close>

fun starts_with :: "string \<Rightarrow> string \<Rightarrow> bool" where
  "starts_with [] s = True"
| "starts_with (k # ks) [] = False"
| "starts_with (k # ks) (c # cs) = (k = c \<and> starts_with ks cs)"

fun py_in :: "string \<Rightarrow> string \<Rightarrow> bool" where
  "py_in k [] = (k = [])"
| "py_in k (c # cs) = (starts_with k (c # cs) \<or> py_in k cs)"

subsection \<open>The normaliser as the specification words it\<close>

text \<open>
  The specification describes the normaliser in five steps. Each step is written here
  directly on the characters, without the regular-expression engine:
  trimming, turning each run of separators into one underscore, keeping only the
  characters of \<^verbatim>\<open>[0-9A-Za-z_]\<close>, merging neighbouring underscores, lower-casing.
\<close>

definition spec_trim :: "string \<Rightarrow> string" where
  "spec_trim s = rev (dropWhile is_space (rev (dropWhile is_space s)))"

fun spec_runs_to_underscore :: "string \<Rightarrow> string" where
  "spec_runs_to_underscore [] = []"
| "spec_runs_to_underscore [c] = (if is_space_or_hyphen c then ''_'' else [c])"
| "spec_runs_to_underscore (c # d # cs) =
     (if is_space_or_hyphen c
      then (if is_space_or_hyphen d then spec_runs_to_underscore (d # cs)
            else CHR ''_'' # spec_runs_to_underscore (d # cs))
      else c # spec_runs_to_underscore (d # cs))"

definition spec_keep_word_chars :: "string \<Rightarrow> string" where
  "spec_keep_word_chars s = filter is_word_char s"

fun spec_collapse_underscores :: "string \<Rightarrow> string" where
  "spec_collapse_underscores [] = []"
| "spec_collapse_underscores [c] = [c]"
| "spec_collapse_underscores (c # d # cs) =
     (if c = CHR ''_'' \<and> d = CHR ''_'' then spec_collapse_underscores (d # cs)
      else c # spec_collapse_underscores (d # cs))"

definition spec_normalize :: "string \<Rightarrow> string" where
  "spec_normalize label =
     py_lower (spec_collapse_underscores (spec_keep_word_chars
       (spec_runs_to_underscore (spec_trim label))))"

section \<open>Data model: pandas frames as the pipeline uses them\<close>

text \<open>
  The pipeline is written against pandas (2.x). Its data are modelled as follows.
  \<^item> A column (\<^verbatim>\<open>Series\<close>) has one dtype; \<open>None\<close> is the missing value (NaN, NaT).
    \<open>NumS\<close> is a numeric dtype, \<open>ObjS\<close> the \<^verbatim>\<open>object\<close> dtype holding text,
    \<open>DtS\<close> is \<^verbatim>\<open>datetime64[ns]\<close> as nanoseconds since the epoch.
    Object columns that mix text with other Python values are not modelled.
  \<^item> Numbers are exact rationals: rounding, infinities and overflow of the machine
    representations are outside the model.
  \<^item> A frame has an index (the row labels, in row order) and its columns in order;
    \<^verbatim>\<open>len(df)\<close> is the length of the index, also when there are no columns.
\<close>

datatype cell = Missing | Num rat | Text string | Ts int

datatype series = NumS "rat option list" | ObjS "string option list" | DtS "int option list"

record column =
  cname :: string
  cdata :: series

record dataframe =
  index :: "nat list"
  columns :: "column list"

record ProcessingSummary =
  rows_before :: int
  rows_after_cleaning :: int
  rows_after_transform :: int
  removed_duplicates :: int
  filled_missing_numeric :: int
  filled_missing_text :: int
  removed_invalid_rows :: int

datatype py_error = TypeError | ValueError | KeyError | IndexError

text \<open>
  Parts of pandas, numpy and the Python runtime that the pipeline calls and whose
  results are not determined by the repository are parameters of the model:
  \<^item> \<open>parse_number\<close>: what \<^verbatim>\<open>pd.to_numeric(..., errors="coerce")\<close> makes of one text
    cell (\<open>None\<close> when the text is not a number);
  \<^item> \<open>to_datetime\<close>: \<^verbatim>\<open>pd.to_datetime(column, errors="coerce")\<close>, either raising
    (\<open>None\<close>) or giving one optional timestamp per cell;
  \<^item> \<open>sort_indexer\<close>: the row positions in their new order computed by
    \<^verbatim>\<open>sort_values(..., ascending=False)\<close> with the default sorting kind;
  \<^item> \<open>set_iter\<close>: the order in which Python iterates over \<^verbatim>\<open>set(names)\<close>.
\<close>

record pandas_env =
  parse_number :: "string \<Rightarrow> rat option"
  to_datetime :: "series \<Rightarrow> int option list option"
  sort_indexer :: "rat list \<Rightarrow> nat list"
  set_iter :: "string list \<Rightarrow> string list"

definition len :: "dataframe \<Rightarrow> nat" where
  "len df = length (index df)"

definition column_names :: "dataframe \<Rightarrow> string list" where
  "column_names df = map cname (columns df)"

fun slen :: "series \<Rightarrow> nat" where
  "slen (NumS xs) = length xs"
| "slen (ObjS xs) = length xs"
| "slen (DtS xs) = length xs"

fun is_numeric_dtype :: "series \<Rightarrow> bool" where
  "is_numeric_dtype (NumS xs) = True"
| "is_numeric_dtype (ObjS xs) = False"
| "is_numeric_dtype (DtS xs) = False"

fun is_object_dtype :: "series \<Rightarrow> bool" where
  "is_object_dtype (NumS xs) = False"
| "is_object_dtype (ObjS xs) = True"
| "is_object_dtype (DtS xs) = False"

text \<open>The cells of a column as values that can be compared across columns.\<close>

fun cells_of :: "series \<Rightarrow> cell list" where
  "cells_of (NumS xs) = map (\<lambda>x. case x of None \<Rightarrow> Missing | Some v \<Rightarrow> Num v) xs"
| "cells_of (ObjS xs) = map (\<lambda>x. case x of None \<Rightarrow> Missing | Some v \<Rightarrow> Text v) xs"
| "cells_of (DtS xs) = map (\<lambda>x. case x of None \<Rightarrow> Missing | Some v \<Rightarrow> Ts v) xs"

text \<open>A well-formed frame: unique column labels, every column as long as the index.\<close>

definition wf_df :: "dataframe \<Rightarrow> bool" where
  "wf_df df =
     (distinct (column_names df) \<and>
      list_all (\<lambda>c. slen (cdata c) = len df) (columns df))"

subsection \<open>Selecting rows\<close>

text \<open>Boolean-mask selection (\<^verbatim>\<open>df[mask]\<close>, \<^verbatim>\<open>df.loc[mask]\<close>) keeps the rows whose mask is true.\<close>

definition mask_select :: "bool list \<Rightarrow> 'a list \<Rightarrow> 'a list" where
  "mask_select keep xs = map fst (filter snd (zip xs keep))"

fun series_select :: "bool list \<Rightarrow> series \<Rightarrow> series" where
  "series_select keep (NumS xs) = NumS (mask_select keep xs)"
| "series_select keep (ObjS xs) = ObjS (mask_select keep xs)"
| "series_select keep (DtS xs) = DtS (mask_select keep xs)"

definition select_rows :: "bool list \<Rightarrow> dataframe \<Rightarrow> dataframe" where
  "select_rows keep df =
     \<lparr>index = mask_select keep (index df),
      columns = map (\<lambda>c. c\<lparr>cdata := series_select keep (cdata c)\<rparr>) (columns df)\<rparr>"

text \<open>Positional selection (\<^verbatim>\<open>take\<close>): the rows at the given positions, in that order.\<close>

definition take_list :: "nat list \<Rightarrow> 'a list \<Rightarrow> 'a list" where
  "take_list ps xs = map (\<lambda>p. xs ! p) ps"

fun series_take :: "nat list \<Rightarrow> series \<Rightarrow> series" where
  "series_take ps (NumS xs) = NumS (take_list ps xs)"
| "series_take ps (ObjS xs) = ObjS (take_list ps xs)"
| "series_take ps (DtS xs) = DtS (take_list ps xs)"

definition take_rows :: "nat list \<Rightarrow> dataframe \<Rightarrow> dataframe" where
  "take_rows ps df =
     \<lparr>index = take_list ps (index df),
      columns = map (\<lambda>c. c\<lparr>cdata := series_take ps (cdata c)\<rparr>) (columns df)\<rparr>"

subsection \<open>Duplicates\<close>

text \<open>
  \<^verbatim>\<open>df.duplicated()\<close> marks a row when an equal row (all cells equal, missing equal to
  missing) occurs before it; \<^verbatim>\<open>df.drop_duplicates()\<close> keeps the unmarked rows and
  returns an empty frame (no rows or no columns) as it is.
\<close>

definition rows_of :: "dataframe \<Rightarrow> cell list list" where
  "rows_of df = transpose (map (\<lambda>c. cells_of (cdata c)) (columns df))"

fun duplicated_from :: "'a list \<Rightarrow> 'a list \<Rightarrow> bool list" where
  "duplicated_from seen [] = []"
| "duplicated_from seen (r # rs) = (r \<in> set seen) # duplicated_from (r # seen) rs"

definition duplicated :: "dataframe \<Rightarrow> bool list" where
  "duplicated df = duplicated_from [] (rows_of df)"

definition drop_duplicates :: "dataframe \<Rightarrow> dataframe" where
  "drop_duplicates df =
     (if index df = [] \<or> columns df = [] then df
      else select_rows (map Not (duplicated df)) df)"

subsection \<open>Missing values, median and mode\<close>

fun dropna :: "'a option list \<Rightarrow> 'a list" where
  "dropna [] = []"
| "dropna (None # xs) = dropna xs"
| "dropna (Some x # xs) = x # dropna xs"

definition isna_sum :: "'a option list \<Rightarrow> nat" where
  "isna_sum xs = length (filter (\<lambda>x. x = None) xs)"

definition isna_any :: "'a option list \<Rightarrow> bool" where
  "isna_any xs = (None \<in> set xs)"

definition fillna :: "'a \<Rightarrow> 'a option list \<Rightarrow> 'a option list" where
  "fillna v xs = map (\<lambda>x. case x of None \<Rightarrow> Some v | Some y \<Rightarrow> Some y) xs"

text \<open>
  \<^verbatim>\<open>Series.median()\<close> skips missing values: the middle of the sorted values, the mean of
  the two middle ones for an even count, and NaN (\<open>None\<close>) when there is no value.
\<close>

definition median :: "rat option list \<Rightarrow> rat option" where
  "median xs =
     (let s = sort (dropna xs); n = length s
      in if n = 0 then None
         else if odd n then Some (s ! (n div 2))
         else Some ((s ! (n div 2 - 1) + s ! (n div 2)) / 2))"

text \<open>
  \<^verbatim>\<open>Series.mode(dropna=True)\<close>: the non-missing values that occur most often, returned
  in ascending order (pandas sorts the modes), empty when every cell is missing.
\<close>

definition mode :: "('a::linorder) option list \<Rightarrow> 'a list" where
  "mode xs =
     (let vs = dropna xs;
          top = fold max (map (count_list vs) vs) 0
      in sort (filter (\<lambda>v. count_list vs v = top) (remdups vs)))"

section \<open>The Cleaner: \<^verbatim>\<open>clean_dataset\<close>\<close>

subsection \<open>Imputation (the first loop over the columns)\<close>

text \<open>
  \<^verbatim>\<open>
  if pd.api.types.is_numeric_dtype(df[col]):
      if df[col].isna().any():
          median_val = df[col].median()
          filled_missing_numeric += int(df[col].isna().sum())
          df[col] = df[col].fillna(median_val)
  else:
      if df[col].isna().any():
          mode_series = df[col].mode(dropna=True)
          fill_val = mode_series.iloc[0] if not mode_series.empty else "unknown"
          filled_missing_text += int(df[col].isna().sum())
          df[col] = df[col].fillna(fill_val)
  \<close>
  The result is the new column and the two increments of the counters. Filling with
  a NaN median (a numeric column without values) changes nothing; filling a datetime
  column with the text \<^verbatim>\<open>"unknown"\<close> turns it into an object column.
\<close>

definition fill_val :: "string option list \<Rightarrow> string" where
  "fill_val xs = (case mode xs of [] \<Rightarrow> ''unknown'' | v # vs \<Rightarrow> v)"

definition impute_column :: "column \<Rightarrow> column \<times> int \<times> int" where
  "impute_column c =
     (case cdata c of
        NumS xs \<Rightarrow>
          if isna_any xs
          then (c\<lparr>cdata := NumS (case median xs of None \<Rightarrow> xs | Some m \<Rightarrow> fillna m xs)\<rparr>,
                int (isna_sum xs), 0)
          else (c, 0, 0)
      | ObjS xs \<Rightarrow>
          if isna_any xs
          then (c\<lparr>cdata := ObjS (fillna (fill_val xs) xs)\<rparr>, 0, int (isna_sum xs))
          else (c, 0, 0)
      | DtS xs \<Rightarrow>
          if isna_any xs
          then (case mode xs of
                  [] \<Rightarrow> (c\<lparr>cdata := ObjS (map (\<lambda>x. Some ''unknown'') xs)\<rparr>, 0, int (isna_sum xs))
                | v # vs \<Rightarrow> (c\<lparr>cdata := DtS (fillna v xs)\<rparr>, 0, int (isna_sum xs)))
          else (c, 0, 0))"

fun impute_loop :: "column list \<Rightarrow> column list \<times> int \<times> int" where
  "impute_loop [] = ([], 0, 0)"
| "impute_loop (c # cs) =
     (case impute_column c of (c', n, t) \<Rightarrow>
        (case impute_loop cs of (cs', n', t') \<Rightarrow> (c' # cs', n + n', t + t')))"

subsection \<open>Standardisation (the second loop over the columns)\<close>

definition is_datelike :: "string \<Rightarrow> bool" where
  "is_datelike col = list_ex (\<lambda>keyword. py_in keyword (py_lower col)) [''date'', ''time'', ''timestamp'']"

text \<open>\<^verbatim>\<open>df[col].astype(str).str.lower()\<close>; the text of a missing value is \<^verbatim>\<open>"nan"\<close>.\<close>

definition astype_str_lower :: "string option list \<Rightarrow> string option list" where
  "astype_str_lower xs = map (\<lambda>x. Some (py_lower (case x of None \<Rightarrow> ''nan'' | Some s \<Rightarrow> s))) xs"

text \<open>
  \<^verbatim>\<open>pd.to_numeric(column, errors="coerce")\<close>: a numeric column is returned as it is, text
  is parsed cell by cell, and a datetime column is read as its 64-bit integers, where
  NaT is the smallest one.
\<close>

definition iNaT :: rat where
  "iNaT = - 9223372036854775808"

fun to_numeric :: "pandas_env \<Rightarrow> series \<Rightarrow> rat option list" where
  "to_numeric env (NumS xs) = xs"
| "to_numeric env (ObjS xs) = map (\<lambda>x. case x of None \<Rightarrow> None | Some s \<Rightarrow> parse_number env s) xs"
| "to_numeric env (DtS xs) = map (\<lambda>x. case x of None \<Rightarrow> Some iNaT | Some n \<Rightarrow> Some (of_int n)) xs"

text \<open>\<^verbatim>\<open>coerced.notna().mean() > 0.7\<close>; the mean of no rows is NaN, which is not above 0.7.\<close>

definition notna_mean_above :: "rat option list \<Rightarrow> bool" where
  "notna_mean_above xs =
     (xs \<noteq> [] \<and> 7 / 10 < (of_nat (length (dropna xs)) :: rat) / of_nat (length xs))"

text \<open>
  \<^verbatim>\<open>
  if any(keyword in col.lower() for keyword in ["date", "time", "timestamp"]):
      try: df[col] = pd.to_datetime(df[col], errors="coerce")
      except Exception: pass
  if pd.api.types.is_object_dtype(df[col]):
      df[col] = df[col].astype(str).str.lower()
  if not pd.api.types.is_numeric_dtype(df[col]):
      try:
          coerced = pd.to_numeric(df[col], errors="coerce")
          if coerced.notna().mean() > 0.7: df[col] = coerced
      except Exception: pass
  \<close>
\<close>

definition standardize_column :: "pandas_env \<Rightarrow> column \<Rightarrow> column" where
  "standardize_column env c =
     (let c1 = (if is_datelike (cname c)
                then (case to_datetime env (cdata c) of
                        None \<Rightarrow> c
                      | Some ts \<Rightarrow> c\<lparr>cdata := DtS ts\<rparr>)
                else c);
          c2 = (case cdata c1 of
                  ObjS xs \<Rightarrow> c1\<lparr>cdata := ObjS (astype_str_lower xs)\<rparr>
                | NumS xs \<Rightarrow> c1
                | DtS xs \<Rightarrow> c1)
      in if \<not> is_numeric_dtype (cdata c2)
         then (let coerced = to_numeric env (cdata c2)
               in if notna_mean_above coerced then c2\<lparr>cdata := NumS coerced\<rparr> else c2)
         else c2)"

subsection \<open>Invalid rows and renaming\<close>

text \<open>
  \<^verbatim>\<open>(df[numeric_cols] < 0).any(axis=1)\<close>: a row is invalid when one of its numeric cells
  is below zero (a missing cell is not).
\<close>

fun negative_mask :: "series \<Rightarrow> bool list" where
  "negative_mask (NumS xs) = map (\<lambda>x. case x of None \<Rightarrow> False | Some v \<Rightarrow> v < 0) xs"
| "negative_mask (ObjS xs) = map (\<lambda>x. False) xs"
| "negative_mask (DtS xs) = map (\<lambda>x. False) xs"

fun any_axis1 :: "bool list list \<Rightarrow> bool list" where
  "any_axis1 [] = []"
| "any_axis1 [m] = m"
| "any_axis1 (m # ms) = map2 (\<or>) m (any_axis1 ms)"

definition numeric_cols :: "dataframe \<Rightarrow> column list" where
  "numeric_cols df = filter (\<lambda>c. is_numeric_dtype (cdata c)) (columns df)"

text \<open>
  \<^verbatim>\<open>
  removed_invalid_rows = 0
  numeric_cols = [c for c in df.columns if pd.api.types.is_numeric_dtype(df[c])]
  if numeric_cols:
      mask_invalid = (df[numeric_cols] < 0).any(axis=1)
      removed_invalid_rows = int(mask_invalid.sum())
      df = df.loc[~mask_invalid].copy()
  \<close>
\<close>

definition mask_invalid :: "dataframe \<Rightarrow> bool list" where
  "mask_invalid df = any_axis1 (map (\<lambda>c. negative_mask (cdata c)) (numeric_cols df))"

definition remove_invalid_rows :: "dataframe \<Rightarrow> dataframe \<times> int" where
  "remove_invalid_rows df =
     (if numeric_cols df \<noteq> []
      then (select_rows (map Not (mask_invalid df)) df,
            int (length (filter id (mask_invalid df))))
      else (df, 0))"

text \<open>\<^verbatim>\<open>df.rename(columns={c: to_snake_case(c) for c in df.columns})\<close>\<close>

definition rename_columns :: "dataframe \<Rightarrow> dataframe" where
  "rename_columns df = df\<lparr>columns := map (\<lambda>c. c\<lparr>cname := to_snake_case (cname c)\<rparr>) (columns df)\<rparr>"

subsection \<open>The whole function\<close>

text \<open>
  \<^verbatim>\<open>clean_dataset(df)\<close> returns the cleaned frame and the summary. With a repeated column
  label \<^verbatim>\<open>df[col]\<close> is a frame, not a column, and the test
  \<^verbatim>\<open>if df[col].isna().any()\<close> of the first loop raises \<^verbatim>\<open>ValueError\<close>.
\<close>

definition clean_dataset :: "pandas_env \<Rightarrow> dataframe \<Rightarrow> py_error + (dataframe \<times> ProcessingSummary)" where
  "clean_dataset env df0 =
     (let rb = int (len df0);
          rd = rb - int (len (drop_duplicates df0));
          df = drop_duplicates df0
      in if \<not> distinct (column_names df) then Inl ValueError
         else
           (case impute_loop (columns df) of (cols1, fmn, fmt) \<Rightarrow>
              (let df2 = df\<lparr>columns := map (standardize_column env) cols1\<rparr>
               in (case remove_invalid_rows df2 of (df3, ri) \<Rightarrow>
                     (let df4 = rename_columns df3
                      in Inr (df4,
                              \<lparr>rows_before = rb,
                               rows_after_cleaning = int (len df4),
                               rows_after_transform = int (len df4),
                               removed_duplicates = rd,
                               filled_missing_numeric = fmn,
                               filled_missing_text = fmt,
                               removed_invalid_rows = ri\<rparr>))))))"

section \<open>The Transformer: \<^verbatim>\<open>apply_transformations\<close>\<close>

subsection \<open>The derived column\<close>

text \<open>
  \<^verbatim>\<open>
  cols = set(df.columns)
  price_col = next((c for c in cols if c in {"price", "unit_price"}), None)
  qty_col = next((c for c in cols if c in {"quantity", "qty"}), None)
  \<close>
\<close>

definition price_col :: "pandas_env \<Rightarrow> dataframe \<Rightarrow> string option" where
  "price_col env df = find (\<lambda>c. c \<in> {''price'', ''unit_price''}) (set_iter env (column_names df))"

definition qty_col :: "pandas_env \<Rightarrow> dataframe \<Rightarrow> string option" where
  "qty_col env df = find (\<lambda>c. c \<in> {''quantity'', ''qty''}) (set_iter env (column_names df))"

text \<open>
  \<^verbatim>\<open>pd.to_numeric(df[name], errors="coerce").fillna(0)\<close>: with a repeated label
  \<^verbatim>\<open>df[name]\<close> is a frame and \<^verbatim>\<open>to_numeric\<close> raises \<^verbatim>\<open>TypeError\<close>; an unknown label
  raises \<^verbatim>\<open>KeyError\<close>.
\<close>

definition value_or_zero :: "rat option \<Rightarrow> rat" where
  "value_or_zero x = (case x of None \<Rightarrow> 0 | Some v \<Rightarrow> v)"

definition numeric_or_zero :: "pandas_env \<Rightarrow> dataframe \<Rightarrow> string \<Rightarrow> py_error + rat list" where
  "numeric_or_zero env df name =
     (case filter (\<lambda>c. cname c = name) (columns df) of
        [] \<Rightarrow> Inl KeyError
      | [c] \<Rightarrow> Inr (map value_or_zero (to_numeric env (cdata c)))
      | c # d # cs \<Rightarrow> Inl TypeError)"

text \<open>
  \<^verbatim>\<open>
  if price_col and qty_col:
      df["total"] = pd.to_numeric(df[price_col], errors="coerce").fillna(0) * pd.to_numeric(
          df[qty_col], errors="coerce").fillna(0)
  else:
      df["total"] = 1
  \<close>
  \<open>total_values\<close> is the right-hand side, one value per row.
\<close>

definition total_values :: "pandas_env \<Rightarrow> dataframe \<Rightarrow> py_error + rat list" where
  "total_values env df =
     (case (price_col env df, qty_col env df) of
        (Some p, Some q) \<Rightarrow>
          (case numeric_or_zero env df p of
             Inl e \<Rightarrow> Inl e
           | Inr ps \<Rightarrow>
               (case numeric_or_zero env df q of
                  Inl e \<Rightarrow> Inl e
                | Inr qs \<Rightarrow> Inr (map2 (*) ps qs)))
      | _ \<Rightarrow> Inr (map (\<lambda>i. 1) (index df)))"

text \<open>
  The assignment \<^verbatim>\<open>df["total"] = values\<close> acts on the frame object that was passed
  in: it overwrites every column labelled \<^verbatim>\<open>total\<close>, or appends a new last column.
\<close>

definition set_total :: "dataframe \<Rightarrow> rat list \<Rightarrow> dataframe" where
  "set_total df tot =
     (if ''total'' \<in> set (column_names df)
      then df\<lparr>columns := map (\<lambda>c. if cname c = ''total'' then c\<lparr>cdata := NumS (map Some tot)\<rparr> else c)
                             (columns df)\<rparr>
      else df\<lparr>columns := columns df @ [\<lparr>cname = ''total'', cdata = NumS (map Some tot)\<rparr>]\<rparr>)"

subsection \<open>Grouping and aggregation\<close>

text \<open>
  \<^verbatim>\<open>
  group_col = None
  for candidate in ["product", "item", "category"]:
      if candidate in df.columns:
          group_col = candidate
          break
  if group_col is None:
      group_col = df.columns[0]
  \<close>
\<close>

definition group_col :: "dataframe \<Rightarrow> py_error + string" where
  "group_col df =
     (case find (\<lambda>candidate. candidate \<in> set (column_names df)) [''product'', ''item'', ''category''] of
        Some c \<Rightarrow> Inr c
      | None \<Rightarrow> (case column_names df of [] \<Rightarrow> Inl IndexError | n # ns \<Rightarrow> Inr n))"

text \<open>
  \<^verbatim>\<open>df.groupby(group_col)\<close> uses the defaults \<^verbatim>\<open>sort=True\<close> and \<^verbatim>\<open>dropna=True\<close>: the group
  keys are the distinct non-missing values of the grouping column in ascending order,
  and a row whose grouping value is missing belongs to no group.
\<close>

definition group_keys :: "('a::linorder) option list \<Rightarrow> 'a list" where
  "group_keys ks = sort (remdups (dropna ks))"

definition group_values :: "'a option list \<Rightarrow> rat list \<Rightarrow> 'a \<Rightarrow> rat list" where
  "group_values ks tot k = map snd (filter (\<lambda>(g, t). g = Some k) (zip ks tot))"

definition agg_sum :: "rat list \<Rightarrow> rat" where
  "agg_sum vs = sum_list vs"

definition agg_mean :: "rat list \<Rightarrow> rat" where
  "agg_mean vs = sum_list vs / of_nat (length vs)"

definition agg_count :: "rat list \<Rightarrow> rat" where
  "agg_count vs = of_nat (length vs)"

fun key_series :: "series \<Rightarrow> series" where
  "key_series (NumS ks) = NumS (map Some (group_keys ks))"
| "key_series (ObjS ks) = ObjS (map Some (group_keys ks))"
| "key_series (DtS ks) = DtS (map Some (group_keys ks))"

fun agg_series :: "(rat list \<Rightarrow> rat) \<Rightarrow> series \<Rightarrow> rat list \<Rightarrow> series" where
  "agg_series f (NumS ks) tot = NumS (map (\<lambda>k. Some (f (group_values ks tot k))) (group_keys ks))"
| "agg_series f (ObjS ks) tot = NumS (map (\<lambda>k. Some (f (group_values ks tot k))) (group_keys ks))"
| "agg_series f (DtS ks) tot = NumS (map (\<lambda>k. Some (f (group_values ks tot k))) (group_keys ks))"

text \<open>
  \<^verbatim>\<open>
  grouped = (df.groupby(group_col)
               .agg(total_sales=("total", "sum"), avg_total=("total", "mean"),
                    count_rows=("total", "count"))
               .reset_index())
  \<close>
  A repeated grouping label makes \<^verbatim>\<open>groupby\<close> raise \<^verbatim>\<open>ValueError\<close>;
  \<^verbatim>\<open>reset_index\<close> raises \<^verbatim>\<open>ValueError\<close> when the grouping label is the label of
  one of the three result columns. With a repeated \<^verbatim>\<open>total\<close> label the function
  raises as well (at the latest \<^verbatim>\<open>sort_values("total")\<close> rejects the ambiguous label).
  The argument \<open>tot\<close> is the content of the \<^verbatim>\<open>total\<close> column just assigned.
\<close>

definition aggregate_frame :: "string \<Rightarrow> series \<Rightarrow> rat list \<Rightarrow> dataframe" where
  "aggregate_frame g ks tot =
     \<lparr>index = [0..<slen (key_series ks)],
      columns = [\<lparr>cname = g, cdata = key_series ks\<rparr>,
                 \<lparr>cname = ''total_sales'', cdata = agg_series agg_sum ks tot\<rparr>,
                 \<lparr>cname = ''avg_total'', cdata = agg_series agg_mean ks tot\<rparr>,
                 \<lparr>cname = ''count_rows'', cdata = agg_series agg_count ks tot\<rparr>]\<rparr>"

definition groupby_agg :: "dataframe \<Rightarrow> string \<Rightarrow> rat list \<Rightarrow> py_error + dataframe" where
  "groupby_agg df g tot =
     (case filter (\<lambda>c. cname c = g) (columns df) of
        [] \<Rightarrow> Inl KeyError
      | [c] \<Rightarrow>
          if length (filter (\<lambda>c. cname c = ''total'') (columns df)) \<noteq> 1 then Inl ValueError
          else if g \<in> {''total_sales'', ''avg_total'', ''count_rows''} then Inl ValueError
          else Inr (aggregate_frame g (cdata c) tot)
      | c # d # cs \<Rightarrow> Inl ValueError)"

text \<open>
  \<^verbatim>\<open>
  for col in ["total_sales", "avg_total"]:
      if col in grouped.columns:
          grouped[col] = pd.to_numeric(grouped[col], errors="coerce")
  \<close>
\<close>

definition coerce_aggregates :: "pandas_env \<Rightarrow> dataframe \<Rightarrow> dataframe" where
  "coerce_aggregates env grouped =
     grouped\<lparr>columns := map (\<lambda>c. if cname c \<in> {''total_sales'', ''avg_total''}
                                  then c\<lparr>cdata := NumS (to_numeric env (cdata c))\<rparr> else c)
                            (columns grouped)\<rparr>"

subsection \<open>The whole function\<close>

text \<open>
  \<open>apply_transformations\<close> gives the three returned values: the filtered and sorted
  frame (\<^verbatim>\<open>df[df["total"] > 0].copy()\<close>, then \<^verbatim>\<open>sort_values("total", ascending=False)\<close>),
  the aggregate frame, and the summary with \<^verbatim>\<open>rows_after_transform = len(df)\<close>.
\<close>

definition apply_transformations ::
  "pandas_env \<Rightarrow> dataframe \<Rightarrow> ProcessingSummary
     \<Rightarrow> py_error + (dataframe \<times> dataframe \<times> ProcessingSummary)" where
  "apply_transformations env df0 summary =
     (case total_values env df0 of
        Inl e \<Rightarrow> Inl e
      | Inr tot \<Rightarrow>
          (let df = set_total df0 tot
           in (case group_col df of
                 Inl e \<Rightarrow> Inl e
               | Inr g \<Rightarrow>
                   (case groupby_agg df g tot of
                      Inl e \<Rightarrow> Inl e
                    | Inr grouped \<Rightarrow>
                        (let keep = map (\<lambda>t. 0 < t) tot;
                             filtered = select_rows keep df;
                             sorted = take_rows (sort_indexer env (mask_select keep tot)) filtered
                         in Inr (sorted,
                                 coerce_aggregates env grouped,
                                 summary\<lparr>rows_after_transform := int (len sorted)\<rparr>))))))"

section \<open>The two core calls of \<^verbatim>\<open>run_full_pipeline\<close>\<close>

text \<open>
  \<^verbatim>\<open>
  df_clean, summary = clean_dataset(df_raw)
  ...
  df_transformed, grouped, summary = apply_transformations(df_clean, summary)
  \<close>
  Loading, saving, the chart, the generated text and the document are left out.
\<close>

definition run_full_pipeline ::
  "pandas_env \<Rightarrow> dataframe \<Rightarrow> py_error + (dataframe \<times> dataframe \<times> ProcessingSummary)" where
  "run_full_pipeline env df_raw =
     (case clean_dataset env df_raw of
        Inl e \<Rightarrow> Inl e
      | Inr (df_clean, summary) \<Rightarrow> apply_transformations env df_clean summary)"

section \<open>Frames as objects\<close>

text \<open>
  Python binds names to objects, and a frame passed to a function is the caller's
  object. To follow which object each statement of the two functions touches, the
  functions are written once more over a store: the list of the frame objects
  created so far, a reference being a position in it. The values are computed by the
  same definitions as above; what is added is the object each value is written to.
  \<^item> An expression that builds a frame (\<^verbatim>\<open>.copy()\<close>, \<^verbatim>\<open>df.rename(...)\<close>,
    \<^verbatim>\<open>df.sort_values(...)\<close>, \<^verbatim>\<open>groupby(...).agg(...).reset_index()\<close>) creates a new
    object, and \<^verbatim>\<open>name = expression\<close> binds the name to it from then on. In the
    definitions the rebound name shadows the old one, as in the source.
  \<^item> An item assignment \<^verbatim>\<open>name[label] = values\<close> changes the object the name is bound
    to at that statement.
  \<^item> Every other statement only reads.
  Objects that are no longer bound to a name stay in the list; temporaries that are
  never bound to a name are not entered. The summary is passed as a value.
\<close>

type_synonym store = "dataframe list"

definition new_frame :: "dataframe \<Rightarrow> store \<Rightarrow> store \<times> nat" where
  "new_frame d h = (h @ [d], length h)"

text \<open>
  Reading \<^verbatim>\<open>df[col]\<close> as a column (the label occurs once), and the assignment
  \<^verbatim>\<open>df[col] = values\<close> for a label of the frame.
\<close>

definition getitem :: "dataframe \<Rightarrow> string \<Rightarrow> column option" where
  "getitem df col =
     (case filter (\<lambda>c. cname c = col) (columns df) of
        [] \<Rightarrow> None
      | [c] \<Rightarrow> Some c
      | c # d # cs \<Rightarrow> None)"

definition setitem :: "string \<Rightarrow> series \<Rightarrow> dataframe \<Rightarrow> dataframe" where
  "setitem col s df =
     df\<lparr>columns := map (\<lambda>c. if cname c = col then c\<lparr>cdata := s\<rparr> else c) (columns df)\<rparr>"

text \<open>
  The first loop of \<^verbatim>\<open>clean_dataset\<close>, \<^verbatim>\<open>for col in df.columns: ...\<close>, on the object
  \<open>df\<close>: each pass reads \<^verbatim>\<open>df[col]\<close> and assigns \<^verbatim>\<open>df[col] = df[col].fillna(...)\<close>.
  Where the source assigns nothing (no missing cell) the column is written back as it
  is. A repeated label raises \<^verbatim>\<open>ValueError\<close> at its pass.
\<close>

fun impute_loop_on :: "nat \<Rightarrow> string list \<Rightarrow> store \<Rightarrow> store \<times> (py_error + (int \<times> int))" where
  "impute_loop_on df [] h = (h, Inr (0, 0))"
| "impute_loop_on df (col # cols) h =
     (case getitem (h ! df) col of
        None \<Rightarrow> (h, Inl ValueError)
      | Some c \<Rightarrow>
          (case impute_column c of (c', n, t) \<Rightarrow>
             (case impute_loop_on df cols (h[df := setitem col (cdata c') (h ! df)]) of
                (h', Inl e) \<Rightarrow> (h', Inl e)
              | (h', Inr (n', t')) \<Rightarrow> (h', Inr (n + n', t + t')))))"

text \<open>
  The second loop, with its assignments \<^verbatim>\<open>df[col] = pd.to_datetime(...)\<close>,
  \<^verbatim>\<open>df[col] = df[col].astype(str).str.lower()\<close> and \<^verbatim>\<open>df[col] = coerced\<close>, again on
  the object \<open>df\<close>. It is reached with unique labels only.
\<close>

fun standardize_loop_on :: "pandas_env \<Rightarrow> nat \<Rightarrow> string list \<Rightarrow> store \<Rightarrow> store" where
  "standardize_loop_on env df [] h = h"
| "standardize_loop_on env df (col # cols) h =
     (case getitem (h ! df) col of
        None \<Rightarrow> standardize_loop_on env df cols h
      | Some c \<Rightarrow>
          standardize_loop_on env df cols
            (h[df := setitem col (cdata (standardize_column env c)) (h ! df)]))"

text \<open>
  \<^verbatim>\<open>clean_dataset(df)\<close> on the store, statement by statement:
  \<^verbatim>\<open>
  rows_before = len(df)
  removed_duplicates = rows_before - len(df.drop_duplicates())
  df = df.drop_duplicates().copy()          # new object, df rebound
  for col in df.columns: ... df[col] = ...  # first loop, writes to df
  for col in df.columns: ... df[col] = ...  # second loop, writes to df
  if numeric_cols:
      ...
      df = df.loc[~mask_invalid].copy()     # new object, df rebound
  df = df.rename(columns=...)               # new object, df rebound
  rows_after_cleaning = len(df)
  return df, summary
  \<close>
\<close>

definition clean_dataset_on ::
  "pandas_env \<Rightarrow> store \<Rightarrow> nat \<Rightarrow> store \<times> (py_error + (nat \<times> ProcessingSummary))" where
  "clean_dataset_on env h df =
     (let rb = int (len (h ! df));
          rd = rb - int (len (drop_duplicates (h ! df)))
      in (case new_frame (drop_duplicates (h ! df)) h of (h, df) \<Rightarrow>
           (case impute_loop_on df (column_names (h ! df)) h of
              (h, Inl e) \<Rightarrow> (h, Inl e)
            | (h, Inr (fmn, fmt)) \<Rightarrow>
                (let h = standardize_loop_on env df (column_names (h ! df)) h
                 in (case remove_invalid_rows (h ! df) of (kept, ri) \<Rightarrow>
                      (case (if numeric_cols (h ! df) \<noteq> [] then new_frame kept h else (h, df)) of
                         (h, df) \<Rightarrow>
                           (case new_frame (rename_columns (h ! df)) h of (h, df) \<Rightarrow>
                              (h, Inr (df,
                                       \<lparr>rows_before = rb,
                                        rows_after_cleaning = int (len (h ! df)),
                                        rows_after_transform = int (len (h ! df)),
                                        removed_duplicates = rd,
                                        filled_missing_numeric = fmn,
                                        filled_missing_text = fmt,
                                        removed_invalid_rows = ri\<rparr>)))))))))"

text \<open>
  \<^verbatim>\<open>apply_transformations(df, summary)\<close> on the store, statement by statement:
  \<^verbatim>\<open>
  df["total"] = ...                                   # writes to df, the argument
  grouped = df.groupby(group_col).agg(...).reset_index()   # new object
  df = df[df["total"] > 0].copy()                     # new object, df rebound
  df = df.sort_values("total", ascending=False)       # new object, df rebound
  for col in ["total_sales", "avg_total"]:
      if col in grouped.columns:
          grouped[col] = pd.to_numeric(grouped[col], errors="coerce")   # writes to grouped
  summary.rows_after_transform = len(df)
  return df, grouped, summary
  \<close>
  The first statement that names \<open>df\<close> on its left is the item assignment, so it
  acts on the reference the function was called with.
\<close>

definition apply_transformations_on ::
  "pandas_env \<Rightarrow> store \<Rightarrow> nat \<Rightarrow> ProcessingSummary
     \<Rightarrow> store \<times> (py_error + (nat \<times> nat \<times> ProcessingSummary))" where
  "apply_transformations_on env h df summary =
     (case total_values env (h ! df) of
        Inl e \<Rightarrow> (h, Inl e)
      | Inr tot \<Rightarrow>
          (let h = h[df := set_total (h ! df) tot]
           in (case group_col (h ! df) of
                 Inl e \<Rightarrow> (h, Inl e)
               | Inr g \<Rightarrow>
                   (case groupby_agg (h ! df) g tot of
                      Inl e \<Rightarrow> (h, Inl e)
                    | Inr aggregated \<Rightarrow>
                        (case new_frame aggregated h of (h, grouped) \<Rightarrow>
                           (let keep = map (\<lambda>t. 0 < t) tot
                            in (case new_frame (select_rows keep (h ! df)) h of (h, df) \<Rightarrow>
                                 (case new_frame (take_rows (sort_indexer env (mask_select keep tot))
                                                            (h ! df)) h of (h, df) \<Rightarrow>
                                    (let h = h[grouped := coerce_aggregates env (h ! grouped)]
                                     in (h, Inr (df, grouped,
                                                 summary\<lparr>rows_after_transform := int (len (h ! df))\<rparr>)))))))))))"

text \<open>
  The two calls of \<^verbatim>\<open>run_full_pipeline\<close> on the store; the result names the cleaned
  frame, the transformed frame and the aggregate frame.
\<close>

definition run_full_pipeline_on ::
  "pandas_env \<Rightarrow> store \<Rightarrow> nat \<Rightarrow> store \<times> (py_error + (nat \<times> nat \<times> nat \<times> ProcessingSummary))" where
  "run_full_pipeline_on env h df_raw =
     (case clean_dataset_on env h df_raw of
        (h, Inl e) \<Rightarrow> (h, Inl e)
      | (h, Inr (df_clean, summary)) \<Rightarrow>
          (case apply_transformations_on env h df_clean summary of
             (h, Inl e) \<Rightarrow> (h, Inl e)
           | (h, Inr (df_transformed, grouped, summary)) \<Rightarrow>
               (h, Inr (df_clean, df_transformed, grouped, summary))))"

section \<open>What is assumed of the parameters\<close>

text \<open>
  \<^item> \<^verbatim>\<open>to_datetime\<close> returns one value per cell;
  \<^item> the sort indexer is a rearrangement of the row positions that puts the values in
    descending order (nothing is assumed about rows with equal values: the default
    sorting kind of \<^verbatim>\<open>sort_values\<close> is not a stable one);
  \<^item> iterating over \<^verbatim>\<open>set(names)\<close> visits exactly the names.
\<close>

definition to_datetime_ok :: "pandas_env \<Rightarrow> bool" where
  "to_datetime_ok env = (\<forall>s ts. to_datetime env s = Some ts \<longrightarrow> length ts = slen s)"

definition sort_indexer_ok :: "pandas_env \<Rightarrow> bool" where
  "sort_indexer_ok env =
     (\<forall>xs. sort (sort_indexer env xs) = [0..<length xs] \<and>
           sorted (rev (map (\<lambda>p. xs ! p) (sort_indexer env xs))))"

definition set_iter_ok :: "pandas_env \<Rightarrow> bool" where
  "set_iter_ok env = (\<forall>ns. set (set_iter env ns) = set ns)"

definition env_ok :: "pandas_env \<Rightarrow> bool" where
  "env_ok env = (to_datetime_ok env \<and> sort_indexer_ok env \<and> set_iter_ok env)"

subsection \<open>A reference environment for concrete tables\<close>

text \<open>
  To evaluate the pipeline on a concrete table the parameters need values. The
  reference environment reads plain integer literals (an optional minus sign and
  digits) as numbers and nothing else, finds no timestamp in any cell, sorts stably,
  and iterates over a set of names in order of first occurrence. The examples below
  use it on tables where pandas does the same: no date-like column label, text cells
  that are either integer literals or words, and few rows.
\<close>

definition digit_value :: "char \<Rightarrow> nat option" where
  "digit_value c =
     (let n = (of_char c :: nat) in if 48 \<le> n \<and> n \<le> 57 then Some (n - 48) else None)"

fun parse_digits :: "nat \<Rightarrow> string \<Rightarrow> nat option" where
  "parse_digits acc [] = Some acc"
| "parse_digits acc (c # cs) =
     (case digit_value c of None \<Rightarrow> None | Some d \<Rightarrow> parse_digits (10 * acc + d) cs)"

definition parse_integer_literal :: "string \<Rightarrow> rat option" where
  "parse_integer_literal s =
     (case s of
        [] \<Rightarrow> None
      | c # cs \<Rightarrow>
          if c = CHR ''-''
          then (if cs = [] then None else map_option (\<lambda>n. - of_nat n) (parse_digits 0 cs))
          else map_option of_nat (parse_digits 0 s))"

definition stable_desc_indexer :: "rat list \<Rightarrow> nat list" where
  "stable_desc_indexer xs = map snd (sort_key (\<lambda>(v, p). - v) (zip xs [0..<length xs]))"

definition ref_env :: pandas_env where
  "ref_env =
     \<lparr>parse_number = parse_integer_literal,
      to_datetime = (\<lambda>s. Some (replicate (slen s) None)),
      sort_indexer = stable_desc_indexer,
      set_iter = remdups\<rparr>"

section \<open>Auxiliary notions for stating the properties\<close>

text \<open>Every column is as long as the index.\<close>

definition rect :: "dataframe \<Rightarrow> bool" where
  "rect df = list_all (\<lambda>c. slen (cdata c) = len df) (columns df)"

text \<open>The frame inside \<^verbatim>\<open>clean_dataset\<close> after the two loops, before invalid rows are removed.\<close>

definition standardized :: "pandas_env \<Rightarrow> dataframe \<Rightarrow> dataframe" where
  "standardized env df =
     (drop_duplicates df)\<lparr>columns := map (standardize_column env)
                                       (fst (impute_loop (columns (drop_duplicates df))))\<rparr>"

subsection \<open>Concrete tables\<close>

text \<open>
  Four orders: the second repeats the first, the third has a negative price, the
  fourth a price of zero.
\<close>

definition orders_table :: dataframe where
  "orders_table =
     \<lparr>index = [0, 1, 2, 3],
      columns =
        [\<lparr>cname = ''product'', cdata = ObjS [Some ''pen'', Some ''pen'', Some ''ink'', Some ''cap'']\<rparr>,
         \<lparr>cname = ''price'', cdata = NumS [Some 2, Some 2, Some (- 1), Some 0]\<rparr>,
         \<lparr>cname = ''qty'', cdata = NumS [Some 3, Some 3, Some 1, Some 5]\<rparr>]\<rparr>"

text \<open>
  One order whose table has the two labels \<^verbatim>\<open>Price\<close> and \<^verbatim>\<open>price\<close>.
\<close>

definition price_table :: dataframe where
  "price_table =
     \<lparr>index = [0],
      columns =
        [\<lparr>cname = ''Price'', cdata = NumS [Some 10]\<rparr>,
         \<lparr>cname = ''price'', cdata = NumS [Some 20]\<rparr>,
         \<lparr>cname = ''qty'', cdata = NumS [Some 2]\<rparr>]\<rparr>"

text \<open>
  Four sales whose product codes are text; the last code is not a number.
\<close>

definition sales_table :: dataframe where
  "sales_table =
     \<lparr>index = [0, 1, 2, 3],
      columns =
        [\<lparr>cname = ''product'', cdata = ObjS [Some ''101'', Some ''102'', Some ''101'', Some ''misc'']\<rparr>,
         \<lparr>cname = ''price'', cdata = NumS [Some 10, Some 20, Some 30, Some 7]\<rparr>,
         \<lparr>cname = ''qty'', cdata = NumS [Some 1, Some 1, Some 1, Some 1]\<rparr>]\<rparr>"

text \<open>
  What the Cleaner makes of the four sales (the product codes are coerced to numbers,
  the code that is not a number becomes missing), and its report.
\<close>

definition sales_cleaned :: dataframe where
  "sales_cleaned =
     \<lparr>index = [0, 1, 2, 3],
      columns =
        [\<lparr>cname = ''product'', cdata = NumS [Some 101, Some 102, Some 101, None]\<rparr>,
         \<lparr>cname = ''price'', cdata = NumS [Some 10, Some 20, Some 30, Some 7]\<rparr>,
         \<lparr>cname = ''qty'', cdata = NumS [Some 1, Some 1, Some 1, Some 1]\<rparr>]\<rparr>"

definition sales_report :: ProcessingSummary where
  "sales_report =
     \<lparr>rows_before = 4, rows_after_cleaning = 4, rows_after_transform = 4,
      removed_duplicates = 0, filled_missing_numeric = 0, filled_missing_text = 0,
      removed_invalid_rows = 0\<rparr>"

text \<open>The two frames the Transformer returns for them.\<close>

definition sales_sorted :: dataframe where
  "sales_sorted =
     \<lparr>index = [2, 1, 0, 3],
      columns =
        [\<lparr>cname = ''product'', cdata = NumS [Some 101, Some 102, Some 101, None]\<rparr>,
         \<lparr>cname = ''price'', cdata = NumS [Some 30, Some 20, Some 10, Some 7]\<rparr>,
         \<lparr>cname = ''qty'', cdata = NumS [Some 1, Some 1, Some 1, Some 1]\<rparr>,
         \<lparr>cname = ''total'', cdata = NumS [Some 30, Some 20, Some 10, Some 7]\<rparr>]\<rparr>"

definition sales_grouped :: dataframe where
  "sales_grouped =
     \<lparr>index = [0, 1],
      columns =
        [\<lparr>cname = ''product'', cdata = NumS [Some 101, Some 102]\<rparr>,
         \<lparr>cname = ''total_sales'', cdata = NumS [Some 40, Some 20]\<rparr>,
         \<lparr>cname = ''avg_total'', cdata = NumS [Some 20, Some 20]\<rparr>,
         \<lparr>cname = ''count_rows'', cdata = NumS [Some 2, Some 1]\<rparr>]\<rparr>"

text \<open>
  Three visits; the first city is missing and the two known cities occur once each,
  \<^verbatim>\<open>rome\<close> before \<^verbatim>\<open>oslo\<close>.
\<close>

definition cities_table :: dataframe where
  "cities_table =
     \<lparr>index = [0, 1, 2],
      columns = [\<lparr>cname = ''city'', cdata = ObjS [None, Some ''rome'', Some ''oslo'']\<rparr>]\<rparr>"

text \<open>
  Four answers of a survey: two names that differ in case only, and scores of which
  three are numbers.
\<close>

definition survey_table :: dataframe where
  "survey_table =
     \<lparr>index = [0, 1, 2, 3],
      columns =
        [\<lparr>cname = ''name'', cdata = ObjS [Some ''Ann'', Some ''ann'', Some ''bo'', Some ''cy'']\<rparr>,
         \<lparr>cname = ''score'', cdata = ObjS [Some ''1'', Some ''1'', Some ''2'', Some ''high'']\<rparr>]\<rparr>"

text \<open>The survey after one run of the Cleaner and after a second run.\<close>

definition survey_once :: dataframe where
  "survey_once =
     \<lparr>index = [0, 1, 2, 3],
      columns =
        [\<lparr>cname = ''name'', cdata = ObjS [Some ''ann'', Some ''ann'', Some ''bo'', Some ''cy'']\<rparr>,
         \<lparr>cname = ''score'', cdata = NumS [Some 1, Some 1, Some 2, None]\<rparr>]\<rparr>"

definition survey_twice :: dataframe where
  "survey_twice =
     \<lparr>index = [0, 2, 3],
      columns =
        [\<lparr>cname = ''name'', cdata = ObjS [Some ''ann'', Some ''bo'', Some ''cy'']\<rparr>,
         \<lparr>cname = ''score'', cdata = NumS [Some 1, Some 2, Some (3 / 2)]\<rparr>]\<rparr>"

text \<open>
  Two offers whose table has the labels \<^verbatim>\<open>Unit Price\<close> and \<^verbatim>\<open>unit_price\<close>, what the
  Cleaner makes of it, and its report.
\<close>

definition units_table :: dataframe where
  "units_table =
     \<lparr>index = [0, 1],
      columns =
        [\<lparr>cname = ''Unit Price'', cdata = NumS [Some 5, Some 8]\<rparr>,
         \<lparr>cname = ''unit_price'', cdata = NumS [Some 6, Some 9]\<rparr>,
         \<lparr>cname = ''quantity'', cdata = NumS [Some 3, Some 1]\<rparr>]\<rparr>"

definition units_cleaned :: dataframe where
  "units_cleaned =
     \<lparr>index = [0, 1],
      columns =
        [\<lparr>cname = ''unit_price'', cdata = NumS [Some 5, Some 8]\<rparr>,
         \<lparr>cname = ''unit_price'', cdata = NumS [Some 6, Some 9]\<rparr>,
         \<lparr>cname = ''quantity'', cdata = NumS [Some 3, Some 1]\<rparr>]\<rparr>"

definition units_report :: ProcessingSummary where
  "units_report =
     \<lparr>rows_before = 2, rows_after_cleaning = 2, rows_after_transform = 2,
      removed_duplicates = 0, filled_missing_numeric = 0, filled_missing_text = 0,
      removed_invalid_rows = 0\<rparr>"

text \<open>
  A ledger of four lines with text prices: one price is not a number, one is missing,
  and one quantity is missing.
\<close>

definition ledger_table :: dataframe where
  "ledger_table =
     \<lparr>index = [0, 1, 2, 3],
      columns =
        [\<lparr>cname = ''price'', cdata = ObjS [Some ''4'', Some ''free'', None, Some ''6'']\<rparr>,
         \<lparr>cname = ''quantity'', cdata = NumS [Some 2, Some 3, Some 5, None]\<rparr>]\<rparr>"

text \<open>The four cleaned sales with the \<^verbatim>\<open>total\<close> column the Transformer assigns.\<close>

definition sales_with_total :: dataframe where
  "sales_with_total =
     \<lparr>index = [0, 1, 2, 3],
      columns =
        [\<lparr>cname = ''product'', cdata = NumS [Some 101, Some 102, Some 101, None]\<rparr>,
         \<lparr>cname = ''price'', cdata = NumS [Some 10, Some 20, Some 30, Some 7]\<rparr>,
         \<lparr>cname = ''qty'', cdata = NumS [Some 1, Some 1, Some 1, Some 1]\<rparr>,
         \<lparr>cname = ''total'', cdata = NumS [Some 10, Some 20, Some 30, Some 7]\<rparr>]\<rparr>"

subsection \<open>Tables on which the Cleaner has nothing to do\<close>

text \<open>
  A column needs no cleaning when its label is not date-like and is already
  normalised, and it is either numeric without a missing or negative cell, or text
  without a missing cell, already in lower case, of which at most 70 percent of the
  cells are numbers. A table is clean when it is well formed, has no two equal
  rows, and none of its columns needs cleaning.
\<close>

definition clean_column :: "pandas_env \<Rightarrow> column \<Rightarrow> bool" where
  "clean_column env c =
     (\<not> is_datelike (cname c) \<and> to_snake_case (cname c) = cname c \<and>
      (case cdata c of
         NumS xs \<Rightarrow> list_all (\<lambda>x. case x of None \<Rightarrow> False | Some v \<Rightarrow> 0 \<le> v) xs
       | ObjS xs \<Rightarrow> \<not> isna_any xs \<and> astype_str_lower xs = xs \<and>
                    \<not> notna_mean_above (to_numeric env (ObjS xs))
       | DtS xs \<Rightarrow> False))"

definition already_clean :: "pandas_env \<Rightarrow> dataframe \<Rightarrow> bool" where
  "already_clean env df =
     (wf_df df \<and> distinct (rows_of df) \<and> list_all (clean_column env) (columns df))"

text \<open>The report of a run that found nothing to do on \<open>n\<close> rows.\<close>

definition unchanged_report :: "nat \<Rightarrow> ProcessingSummary" where
  "unchanged_report n =
     \<lparr>rows_before = int n, rows_after_cleaning = int n, rows_after_transform = int n,
      removed_duplicates = 0, filled_missing_numeric = 0, filled_missing_text = 0,
      removed_invalid_rows = 0\<rparr>"

subsection \<open>Notions used in the statements about imputation\<close>

text \<open>
  The fill value as the specification words it: the most frequent non-missing value,
  the first one in order of appearance when several are equally frequent, and the text
  \<^verbatim>\<open>unknown\<close> when there is no value.
\<close>

definition spec_fill_value :: "string option list \<Rightarrow> string" where
  "spec_fill_value xs =
     (let vs = dropna xs;
          top = fold max (map (count_list vs) vs) 0
      in case filter (\<lambda>v. count_list vs v = top) vs of [] \<Rightarrow> ''unknown'' | v # ws \<Rightarrow> v)"

text \<open>The non-missing cells of a column, in row order.\<close>

definition present_cells :: "series \<Rightarrow> cell list" where
  "present_cells s = filter (\<lambda>x. x \<noteq> Missing) (cells_of s)"

text \<open>The order of two cells of the same kind.\<close>

fun cell_le :: "cell \<Rightarrow> cell \<Rightarrow> bool" where
  "cell_le (Num a) (Num b) = (a \<le> b)"
| "cell_le (Text a) (Text b) = (a \<le> b)"
| "cell_le (Ts a) (Ts b) = (a \<le> b)"
| "cell_le x y = False"

subsection \<open>Notions used in the statements about aggregation\<close>

text \<open>The keys of an aggregate: none missing, strictly ascending.\<close>

fun ascending_keys :: "series \<Rightarrow> bool" where
  "ascending_keys (NumS ks) = (\<not> isna_any ks \<and> sorted_wrt (<) (dropna ks))"
| "ascending_keys (ObjS ks) = (\<not> isna_any ks \<and> sorted_wrt (<) (dropna ks))"
| "ascending_keys (DtS ks) = (\<not> isna_any ks \<and> sorted_wrt (<) (dropna ks))"

text \<open>
  The totals of the rows whose grouping cell equals \<open>k\<close>, and the aggregate row of a
  key with these totals: key, sum, mean, count.
\<close>

definition totals_of_group :: "cell list \<Rightarrow> rat list \<Rightarrow> cell \<Rightarrow> rat list" where
  "totals_of_group gs tot k = map snd (filter (\<lambda>(g, t). g = k) (zip gs tot))"

definition aggregate_row :: "cell \<Rightarrow> rat list \<Rightarrow> cell list" where
  "aggregate_row k ts =
     [k, Num (sum_list ts), Num (sum_list ts / of_nat (length ts)), Num (of_nat (length ts))]"

subsection \<open>Notions used in the statements about the derived column\<close>

text \<open>
  The specification's \<^verbatim>\<open>numeric(cell, default 0)\<close>, written on cells: a number is
  itself, a text is the number it parses to and 0 when it does not parse, a missing
  cell is 0. The specification does not say what the number of a timestamp is; it is
  read as its integer here, and the statements below leave timestamp columns out.
\<close>

fun spec_numeric_default_zero :: "(string \<Rightarrow> rat option) \<Rightarrow> cell \<Rightarrow> rat" where
  "spec_numeric_default_zero parse Missing = 0"
| "spec_numeric_default_zero parse (Num v) = v"
| "spec_numeric_default_zero parse (Text s) = (case parse s of None \<Rightarrow> 0 | Some v \<Rightarrow> v)"
| "spec_numeric_default_zero parse (Ts n) = of_int n"

section \<open>The column-name normaliser\<close>

lemma re_sub_runs: "re_sub_plus is_space_or_hyphen ''_'' s = spec_runs_to_underscore s"
  by (induction s rule: spec_runs_to_underscore.induct) auto

lemma filter_dropWhile_not: "filter P (dropWhile (\<lambda>c. \<not> P c) cs) = filter P cs"
  by (induction cs) auto

lemma re_sub_delete: "re_sub_plus (\<lambda>c. \<not> P c) [] s = filter P s"
proof (induction "length s" arbitrary: s rule: less_induct)
  case less
  show ?case
  proof (cases s)
    case Nil
    then show ?thesis by simp
  next
    case (Cons c cs)
    show ?thesis
    proof (cases "P c")
      case True
      with Cons less show ?thesis by simp
    next
      case False
      have shorter: "length (dropWhile (\<lambda>c. \<not> P c) cs) < length s"
        using Cons by (simp add: le_imp_less_Suc length_dropWhile_le)
      from False Cons less.hyps[OF shorter] show ?thesis
        by (simp add: filter_dropWhile_not)
    qed
  qed
qed

lemma re_sub_collapse: "re_sub_plus is_underscore ''_'' s = spec_collapse_underscores s"
  by (induction s rule: spec_collapse_underscores.induct) (auto simp: is_underscore_def)

text \<open>
  C9. The column-name normaliser is a total, deterministic function of the label. It
  computes what the five steps of the specification compute (trim; runs of whitespace
  or hyphens to one underscore; drop every character outside \<^verbatim>\<open>[0-9A-Za-z_]\<close>;
  collapse repeated underscores; lower-case), and it maps \<^verbatim>\<open>"Unit  Price!"\<close> to
  \<^verbatim>\<open>"unit_price"\<close>.
\<close>

theorem to_snake_case_refines_spec:
  "to_snake_case label = spec_normalize label \<and>
   to_snake_case ''Unit  Price!'' = ''unit_price''"
proof
  show "to_snake_case label = spec_normalize label"
    by (simp add: to_snake_case_def spec_normalize_def py_strip_def spec_trim_def
        re_sub_runs re_sub_delete re_sub_collapse spec_keep_word_chars_def)
  show "to_snake_case ''Unit  Price!'' = ''unit_price''"
    by code_simp
qed

section \<open>Shapes and row counts\<close>

lemma length_mask_select_le: "length (mask_select keep xs) \<le> length xs"
proof -
  have "length (filter snd (zip xs keep)) \<le> length (zip xs keep)"
    by (rule length_filter_le)
  then show ?thesis by (simp add: mask_select_def)
qed

lemma length_mask_select:
  "length (mask_select keep xs) = length (filter id (take (length xs) keep))"
proof (induction xs arbitrary: keep)
  case Nil
  then show ?case by (simp add: mask_select_def)
next
  case (Cons x xs)
  then show ?case
    by (cases keep) (auto simp: mask_select_def)
qed

lemma slen_series_select:
  "slen (series_select keep s) = length (filter id (take (slen s) keep))"
  by (cases s) (simp_all add: length_mask_select)

lemma len_select_rows_le: "len (select_rows keep df) \<le> len df"
  by (simp add: len_def select_rows_def length_mask_select_le)

lemma column_names_select_rows [simp]:
  "column_names (select_rows keep df) = column_names df"
  by (simp add: column_names_def select_rows_def comp_def)

lemma wf_df_rect: "wf_df df = (distinct (column_names df) \<and> rect df)"
  by (simp add: wf_df_def rect_def)

lemma rect_select_rows: "rect df \<Longrightarrow> rect (select_rows keep df)"
  by (auto simp: rect_def list_all_iff select_rows_def len_def slen_series_select length_mask_select)

lemma len_drop_duplicates_le: "len (drop_duplicates df) \<le> len df"
  by (simp add: drop_duplicates_def len_select_rows_le)

lemma column_names_drop_duplicates [simp]:
  "column_names (drop_duplicates df) = column_names df"
  by (simp add: drop_duplicates_def)

lemma rect_drop_duplicates: "rect df \<Longrightarrow> rect (drop_duplicates df)"
  by (simp add: drop_duplicates_def rect_select_rows)

lemma length_fillna [simp]: "length (fillna v xs) = length xs"
  by (simp add: fillna_def)

lemma slen_impute_column [simp]: "slen (cdata (fst (impute_column c))) = slen (cdata c)"
  by (cases "cdata c") (auto simp: impute_column_def split: option.splits list.splits)

lemma cname_impute_column [simp]: "cname (fst (impute_column c)) = cname c"
  by (cases "cdata c") (auto simp: impute_column_def split: option.splits list.splits)

lemma fst_impute_loop: "fst (impute_loop cs) = map (\<lambda>c. fst (impute_column c)) cs"
  by (induction cs) (auto split: prod.splits)

lemma cname_standardize_column [simp]: "cname (standardize_column env c) = cname c"
  by (auto simp: standardize_column_def Let_def split: option.splits series.splits)

lemma length_to_numeric [simp]: "length (to_numeric env s) = slen s"
  by (cases s) simp_all

lemma slen_standardize_column:
  "to_datetime_ok env \<Longrightarrow> slen (cdata (standardize_column env c)) = slen (cdata c)"
  by (auto simp: standardize_column_def Let_def to_datetime_ok_def astype_str_lower_def
      split: option.splits series.splits)

lemma len_remove_invalid_rows_le: "len (fst (remove_invalid_rows df)) \<le> len df"
  by (simp add: remove_invalid_rows_def len_select_rows_le)

lemma rect_remove_invalid_rows: "rect df \<Longrightarrow> rect (fst (remove_invalid_rows df))"
  by (simp add: remove_invalid_rows_def rect_select_rows)

lemma column_names_remove_invalid_rows [simp]:
  "column_names (fst (remove_invalid_rows df)) = column_names df"
  by (simp add: remove_invalid_rows_def)

lemma len_rename_columns [simp]: "len (rename_columns df) = len df"
  by (simp add: len_def rename_columns_def)

lemma rect_rename_columns: "rect df \<Longrightarrow> rect (rename_columns df)"
  by (simp add: rect_def list_all_iff rename_columns_def len_def)

lemma len_standardized [simp]: "len (standardized env df) = len (drop_duplicates df)"
  by (simp add: standardized_def len_def)

lemma rect_standardized:
  assumes "to_datetime_ok env" and "rect df"
  shows "rect (standardized env df)"
proof -
  from assms(2) have "rect (drop_duplicates df)" by (rule rect_drop_duplicates)
  then show ?thesis
    using assms(1)
    by (simp add: rect_def list_all_iff standardized_def len_def fst_impute_loop
        slen_standardize_column)
qed

lemma clean_dataset_returns:
  assumes "distinct (column_names df)"
  shows "clean_dataset env df =
           Inr (rename_columns (fst (remove_invalid_rows (standardized env df))),
                \<lparr>rows_before = int (len df),
                 rows_after_cleaning = int (len (fst (remove_invalid_rows (standardized env df)))),
                 rows_after_transform = int (len (fst (remove_invalid_rows (standardized env df)))),
                 removed_duplicates = int (len df) - int (len (drop_duplicates df)),
                 filled_missing_numeric = fst (snd (impute_loop (columns (drop_duplicates df)))),
                 filled_missing_text = snd (snd (impute_loop (columns (drop_duplicates df)))),
                 removed_invalid_rows = snd (remove_invalid_rows (standardized env df))\<rparr>)"
  using assms
  by (simp add: clean_dataset_def Let_def standardized_def split: prod.splits)

section \<open>Row counts of the Transformer\<close>

lemma filter_unique_name:
  assumes "distinct (map f xs)" and "x \<in> set xs"
  shows "filter (\<lambda>y. f y = f x) xs = [x]"
  using assms
proof (induction xs)
  case Nil
  then show ?case by simp
next
  case (Cons a xs)
  show ?case
  proof (cases "a = x")
    case True
    with Cons.prems have "\<forall>y\<in>set xs. f y \<noteq> f x" by (auto simp: image_iff)
    then have "filter (\<lambda>y. f y = f x) xs = []" by (simp add: filter_empty_conv)
    with True show ?thesis by simp
  next
    case False
    with Cons.prems have "x \<in> set xs" and "f a \<noteq> f x" by auto
    with Cons show ?thesis by simp
  qed
qed

lemma column_by_name:
  assumes "distinct (column_names df)" and "n \<in> set (column_names df)"
  shows "\<exists>c. c \<in> set (columns df) \<and> cname c = n \<and> filter (\<lambda>c. cname c = n) (columns df) = [c]"
proof -
  from assms(2) obtain c where c: "c \<in> set (columns df)" "cname c = n"
    by (auto simp: column_names_def)
  from assms(1) have "distinct (map cname (columns df))" by (simp add: column_names_def)
  from filter_unique_name[OF this c(1)] c show ?thesis by auto
qed

lemma numeric_or_zero_unique:
  assumes "filter (\<lambda>c. cname c = n) (columns df) = [c]"
  shows "numeric_or_zero env df n = Inr (map value_or_zero (to_numeric env (cdata c)))"
  using assms by (simp add: numeric_or_zero_def)

lemma numeric_or_zero_length:
  assumes "rect df" and "numeric_or_zero env df n = Inr ps"
  shows "length ps = len df"
proof -
  from assms(2) obtain c where c: "filter (\<lambda>c. cname c = n) (columns df) = [c]"
    and ps: "ps = map value_or_zero (to_numeric env (cdata c))"
    by (auto simp: numeric_or_zero_def split: list.splits)
  from c have "c \<in> set (filter (\<lambda>c. cname c = n) (columns df))" by simp
  then have "c \<in> set (columns df)" by simp
  with assms(1) have "slen (cdata c) = len df" by (simp add: rect_def list_all_iff)
  with ps show ?thesis by simp
qed

lemma total_values_length:
  assumes "rect df" and "total_values env df = Inr tot"
  shows "length tot = len df"
proof (cases "price_col env df")
  case None
  with assms(2) show ?thesis by (auto simp: total_values_def len_def)
next
  case (Some p)
  show ?thesis
  proof (cases "qty_col env df")
    case None
    with Some assms(2) show ?thesis by (auto simp: total_values_def len_def)
  next
    case qs: (Some q)
    from assms(2) Some qs obtain ps qs' where
      a: "numeric_or_zero env df p = Inr ps" and b: "numeric_or_zero env df q = Inr qs'"
      and t: "tot = map2 (*) ps qs'"
      by (auto simp: total_values_def split: sum.splits)
    from numeric_or_zero_length[OF assms(1) a] numeric_or_zero_length[OF assms(1) b] t
    show ?thesis by simp
  qed
qed

lemma length_sort_indexer:
  assumes "sort_indexer_ok env"
  shows "length (sort_indexer env xs) = length xs"
proof -
  from assms have "sort (sort_indexer env xs) = [0..<length xs]"
    by (simp add: sort_indexer_ok_def)
  then have "length (sort (sort_indexer env xs)) = length [0..<length xs]" by simp
  then show ?thesis by simp
qed

lemma len_take_rows [simp]: "len (take_rows ps df) = length ps"
  by (simp add: len_def take_rows_def take_list_def)

lemma apply_transformations_rows:
  assumes "sort_indexer_ok env" and "rect df"
    and "apply_transformations env df s = Inr (out, grouped, s')"
  shows "rows_after_transform s' = int (len out) \<and> len out \<le> len df \<and>
         rows_after_cleaning s' = rows_after_cleaning s \<and> rows_before s' = rows_before s"
proof -
  from assms(3) obtain tot where tot: "total_values env df = Inr tot"
    and out: "out = take_rows (sort_indexer env (mask_select (map (\<lambda>t. 0 < t) tot) tot))
                      (select_rows (map (\<lambda>t. 0 < t) tot) (set_total df tot))"
    and s': "s' = s\<lparr>rows_after_transform := int (len out)\<rparr>"
    by (auto simp: apply_transformations_def Let_def split: sum.splits)
  have "len out = length (mask_select (map (\<lambda>t. 0 < t) tot) tot)"
    using out by (simp add: length_sort_indexer[OF assms(1)])
  also have "\<dots> \<le> length tot" by (rule length_mask_select_le)
  also have "\<dots> = len df" by (rule total_values_length[OF assms(2) tot])
  finally have "len out \<le> len df" .
  with s' show ?thesis by simp
qed

text \<open>
  C8. For every well-formed input table the Cleaner returns, and its report satisfies
  \<^verbatim>\<open>rows_after_cleaning <= rows_before\<close>; whenever the Transformer then returns on the
  cleaned table and that report, \<^verbatim>\<open>rows_after_transform <= rows_after_cleaning\<close>.
\<close>

theorem row_counts_never_grow:
  assumes "env_ok env" and "wf_df df"
  shows "\<exists>cleaned s1.
           clean_dataset env df = Inr (cleaned, s1) \<and>
           rows_before s1 = int (len df) \<and>
           rows_after_cleaning s1 = int (len cleaned) \<and>
           rows_after_cleaning s1 \<le> rows_before s1 \<and>
           (\<forall>out grouped s2.
              apply_transformations env cleaned s1 = Inr (out, grouped, s2) \<longrightarrow>
              rows_after_transform s2 = int (len out) \<and>
              rows_after_transform s2 \<le> rows_after_cleaning s2)"
proof -
  from assms(1) have dt: "to_datetime_ok env" and so: "sort_indexer_ok env"
    by (simp_all add: env_ok_def)
  from assms(2) have dn: "distinct (column_names df)" and re: "rect df"
    by (simp_all add: wf_df_rect)
  let ?d3 = "fst (remove_invalid_rows (standardized env df))"
  let ?cleaned = "rename_columns ?d3"
  note ret = clean_dataset_returns[OF dn, of env]
  have "len ?d3 \<le> len (standardized env df)" by (rule len_remove_invalid_rows_le)
  also have "\<dots> \<le> len df" by (simp add: len_drop_duplicates_le)
  finally have le: "len ?cleaned \<le> len df" by simp
  have rc: "rect ?cleaned"
    by (intro rect_rename_columns rect_remove_invalid_rows rect_standardized dt re)
  show ?thesis
    using ret le apply_transformations_rows[OF so rc]
    by (intro exI[of _ ?cleaned] exI) (auto simp del: len_rename_columns, auto)
qed

section \<open>The reference environment meets the assumptions\<close>

lemma sorted_map_uminus: "sorted (map uminus (ys :: rat list)) = sorted (rev ys)"
  by (simp add: sorted_wrt_map sorted_wrt_rev)

lemma stable_desc_indexer_positions:
  "sort (stable_desc_indexer xs) = [0..<length xs]"
proof -
  let ?zs = "zip xs [0..<length xs]"
  let ?l = "sort_key (\<lambda>(v, p). - v) ?zs"
  have snd_zs: "map snd ?zs = [0..<length xs]" by simp
  have dzs: "distinct ?zs" by (simp add: distinct_zipI2)
  have "inj_on snd (set ?zs)"
    using snd_zs by (metis distinct_map distinct_upt)
  then have "distinct (map snd ?l)" using dzs by (simp add: distinct_map)
  moreover have "set (map snd ?l) = set [0..<length xs]"
    using snd_zs by (metis set_map set_sort)
  ultimately have "sort (map snd ?l) = [0..<length xs]"
    by (intro sorted_distinct_set_unique) simp_all
  then show ?thesis by (simp add: stable_desc_indexer_def)
qed

lemma stable_desc_indexer_descending:
  "sorted (rev (map (\<lambda>p. xs ! p) (stable_desc_indexer xs)))"
proof -
  let ?zs = "zip xs [0..<length xs]"
  let ?l = "sort_key (\<lambda>(v, p). - v) ?zs"
  have "\<forall>z\<in>set ?l. xs ! snd z = fst z"
    by (auto simp: set_zip)
  then have eq: "map (\<lambda>p. xs ! p) (map snd ?l) = map fst ?l" by simp
  have "sorted (map (\<lambda>(v, p). - v) ?l)" by (rule sorted_sort_key)
  then have "sorted (map uminus (map fst ?l))" by (simp add: case_prod_unfold comp_def)
  then have "sorted (rev (map fst ?l))" by (simp only: sorted_map_uminus)
  then have "sorted (rev (map (\<lambda>p. xs ! p) (map snd ?l)))" by (simp only: eq)
  then show ?thesis by (simp only: stable_desc_indexer_def)
qed

lemma ref_env_ok: "env_ok ref_env"
  by (simp add: env_ok_def to_datetime_ok_def sort_indexer_ok_def set_iter_ok_def ref_env_def
      stable_desc_indexer_positions stable_desc_indexer_descending)

section \<open>The pipeline on the four orders\<close>

lemma orders_table_wf: "wf_df orders_table"
  by (simp add: wf_df_def orders_table_def column_names_def len_def)

lemma orders_table_pipeline:
  "clean_dataset ref_env orders_table =
     Inr (\<lparr>index = [0, 3],
           columns = [\<lparr>cname = ''product'', cdata = ObjS [Some ''pen'', Some ''cap'']\<rparr>,
                      \<lparr>cname = ''price'', cdata = NumS [Some 2, Some 0]\<rparr>,
                      \<lparr>cname = ''qty'', cdata = NumS [Some 3, Some 5]\<rparr>]\<rparr>,
          \<lparr>rows_before = 4, rows_after_cleaning = 2, rows_after_transform = 2,
           removed_duplicates = 1, filled_missing_numeric = 0, filled_missing_text = 0,
           removed_invalid_rows = 1\<rparr>)"
  by code_simp

lemma orders_table_transformed:
  "map_sum id (\<lambda>(out, grouped, s). (index out, rows_after_transform s))
     (apply_transformations ref_env
        \<lparr>index = [0, 3],
           columns = [\<lparr>cname = ''product'', cdata = ObjS [Some ''pen'', Some ''cap'']\<rparr>,
                      \<lparr>cname = ''price'', cdata = NumS [Some 2, Some 0]\<rparr>,
                      \<lparr>cname = ''qty'', cdata = NumS [Some 3, Some 5]\<rparr>]\<rparr>
          \<lparr>rows_before = 4, rows_after_cleaning = 2, rows_after_transform = 2,
           removed_duplicates = 1, filled_missing_numeric = 0, filled_missing_text = 0,
           removed_invalid_rows = 1\<rparr>) = Inr ([0], 1)"
  by code_simp

text \<open>
  The row-count theorem at the four orders: both assumptions hold there, the Cleaner
  reports 4 rows before and 2 after.
\<close>

theorem row_counts_never_grow_witness:
  "env_ok ref_env \<and> wf_df orders_table \<and>
   (\<exists>cleaned s1.
      clean_dataset ref_env orders_table = Inr (cleaned, s1) \<and>
      rows_before s1 = 4 \<and> rows_after_cleaning s1 = 2 \<and>
      rows_after_cleaning s1 \<le> rows_before s1 \<and>
      (\<forall>out grouped s2.
         apply_transformations ref_env cleaned s1 = Inr (out, grouped, s2) \<longrightarrow>
         rows_after_transform s2 = int (len out) \<and>
         rows_after_transform s2 \<le> rows_after_cleaning s2))"
proof -
  from row_counts_never_grow[OF ref_env_ok orders_table_wf]
  obtain cleaned s1 where
    c: "clean_dataset ref_env orders_table = Inr (cleaned, s1)"
    and r: "rows_after_cleaning s1 \<le> rows_before s1"
    and t: "\<forall>out grouped s2.
         apply_transformations ref_env cleaned s1 = Inr (out, grouped, s2) \<longrightarrow>
         rows_after_transform s2 = int (len out) \<and>
         rows_after_transform s2 \<le> rows_after_cleaning s2"
    by blast
  from c have "rows_before s1 = 4 \<and> rows_after_cleaning s1 = 2"
    by (auto simp: orders_table_pipeline)
  with c r t ref_env_ok orders_table_wf show ?thesis by blast
qed

section \<open>Colliding labels\<close>

lemma price_table_wf: "wf_df price_table"
  by (simp add: wf_df_def price_table_def column_names_def len_def)

text \<open>
  C5. The claim is that cleaning and transforming never raise. On the well-formed
  one-row table with the labels \<^verbatim>\<open>Price\<close>, \<^verbatim>\<open>price\<close>, \<^verbatim>\<open>qty\<close> the Cleaner returns a
  table in which both price labels have become \<^verbatim>\<open>price\<close>, and the Transformer then
  raises \<^verbatim>\<open>TypeError\<close>: \<^verbatim>\<open>df["price"]\<close> selects two columns and \<^verbatim>\<open>pd.to_numeric\<close>
  rejects a frame.
\<close>

theorem colliding_labels_raise:
  "wf_df price_table \<and>
   clean_dataset ref_env price_table =
     Inr (\<lparr>index = [0],
           columns = [\<lparr>cname = ''price'', cdata = NumS [Some 10]\<rparr>,
                      \<lparr>cname = ''price'', cdata = NumS [Some 20]\<rparr>,
                      \<lparr>cname = ''qty'', cdata = NumS [Some 2]\<rparr>]\<rparr>,
          \<lparr>rows_before = 1, rows_after_cleaning = 1, rows_after_transform = 1,
           removed_duplicates = 0, filled_missing_numeric = 0, filled_missing_text = 0,
           removed_invalid_rows = 0\<rparr>) \<and>
   run_full_pipeline ref_env price_table = Inl TypeError"
proof (intro conjI)
  show "wf_df price_table" by (rule price_table_wf)
  show "clean_dataset ref_env price_table =
     Inr (\<lparr>index = [0],
           columns = [\<lparr>cname = ''price'', cdata = NumS [Some 10]\<rparr>,
                      \<lparr>cname = ''price'', cdata = NumS [Some 20]\<rparr>,
                      \<lparr>cname = ''qty'', cdata = NumS [Some 2]\<rparr>]\<rparr>,
          \<lparr>rows_before = 1, rows_after_cleaning = 1, rows_after_transform = 1,
           removed_duplicates = 0, filled_missing_numeric = 0, filled_missing_text = 0,
           removed_invalid_rows = 0\<rparr>)"
    by code_simp
  show "run_full_pipeline ref_env price_table = Inl TypeError"
    by code_simp
qed

section \<open>The aggregate table\<close>

lemma groupby_agg_columns:
  assumes "groupby_agg df g tot = Inr grouped"
  shows "\<exists>c. filter (\<lambda>c. cname c = g) (columns df) = [c] \<and>
             g \<noteq> ''total_sales'' \<and> g \<noteq> ''avg_total'' \<and> g \<noteq> ''count_rows'' \<and>
             grouped = aggregate_frame g (cdata c) tot"
  using assms by (auto simp: groupby_agg_def split: list.splits if_splits)

lemma coerce_aggregates_groupby:
  assumes "groupby_agg df g tot = Inr grouped"
  shows "coerce_aggregates env grouped = grouped"
proof -
  from groupby_agg_columns[OF assms] obtain c where
    h: "filter (\<lambda>c. cname c = g) (columns df) = [c] \<and>
        g \<noteq> ''total_sales'' \<and> g \<noteq> ''avg_total'' \<and> g \<noteq> ''count_rows'' \<and>
        grouped = aggregate_frame g (cdata c) tot" ..
  from h have n: "g \<noteq> ''total_sales''" "g \<noteq> ''avg_total''"
    and g: "grouped = aggregate_frame g (cdata c) tot"
    by simp_all
  show ?thesis
    unfolding g coerce_aggregates_def aggregate_frame_def using n
    by (cases "cdata c") simp_all
qed

lemma apply_transformations_grouped:
  assumes "apply_transformations env df s = Inr (out, grouped, s')"
  shows "\<exists>tot g. total_values env df = Inr tot \<and> group_col (set_total df tot) = Inr g \<and>
               groupby_agg (set_total df tot) g tot = Inr grouped"
proof -
  from assms obtain tot g grouped0 where
    "total_values env df = Inr tot" "group_col (set_total df tot) = Inr g"
    "groupby_agg (set_total df tot) g tot = Inr grouped0"
    "grouped = coerce_aggregates env grouped0"
    by (auto simp: apply_transformations_def Let_def split: sum.splits)
  then show ?thesis by (auto simp: coerce_aggregates_groupby)
qed

lemma dropna_map_Some [simp]: "dropna (map Some xs) = xs"
  by (induction xs) simp_all

lemma set_dropna: "set (dropna xs) = {x. Some x \<in> set xs}"
  by (induction xs rule: dropna.induct) auto

lemma group_keys_strict: "sorted_wrt (<) (group_keys ks)"
  by (simp add: group_keys_def strict_sorted_iff)

lemma ascending_key_series: "ascending_keys (key_series s)"
  by (cases s) (auto simp: isna_any_def group_keys_strict)

text \<open>
  C10. Whenever the Transformer returns, the first column of the aggregate table is the
  grouping column, it has one key per aggregate row, no key is missing and the keys
  are in strictly ascending order.
\<close>

theorem aggregate_sorted_by_key:
  assumes "apply_transformations env df s = Inr (out, grouped, s')"
  shows "\<exists>g keys rest.
           columns grouped = \<lparr>cname = g, cdata = keys\<rparr> # rest \<and>
           slen keys = len grouped \<and>
           ascending_keys keys"
proof -
  from apply_transformations_grouped[OF assms] obtain tot g where
    "groupby_agg (set_total df tot) g tot = Inr grouped" by blast
  from groupby_agg_columns[OF this] obtain c where
    h: "filter (\<lambda>c. cname c = g) (columns (set_total df tot)) = [c] \<and>
        g \<noteq> ''total_sales'' \<and> g \<noteq> ''avg_total'' \<and> g \<noteq> ''count_rows'' \<and>
        grouped = aggregate_frame g (cdata c) tot" ..
  then have "grouped = aggregate_frame g (cdata c) tot" by simp
  then show ?thesis
    by (simp add: aggregate_frame_def ascending_key_series len_def)
qed

section \<open>The pipeline on the four sales\<close>

lemma sales_cleaning: "clean_dataset ref_env sales_table = Inr (sales_cleaned, sales_report)"
  by code_simp

lemma sales_transformation:
  "apply_transformations ref_env sales_cleaned sales_report =
     Inr (sales_sorted, sales_grouped, sales_report)"
  by code_simp

lemma sales_grouped_rows:
  "rows_of sales_grouped = [[Num 101, Num 40, Num 20, Num 2], [Num 102, Num 20, Num 20, Num 1]]"
  by code_simp

text \<open>The ordering theorem at the four cleaned sales.\<close>

theorem aggregate_sorted_by_key_witness:
  "apply_transformations ref_env sales_cleaned sales_report =
     Inr (sales_sorted, sales_grouped, sales_report) \<and>
   (\<exists>g keys rest.
      columns sales_grouped = \<lparr>cname = g, cdata = keys\<rparr> # rest \<and>
      slen keys = len sales_grouped \<and>
      ascending_keys keys)"
  using aggregate_sorted_by_key[OF sales_transformation] sales_transformation by simp

text \<open>
  C3, as stated, fails. The Cleaner turns the product code \<^verbatim>\<open>misc\<close> of the fourth sale
  into a missing value. The claim then requires an aggregate row for the missing key,
  which would be (missing, 7, 7, 1); the aggregate table has the rows of the keys 101
  and 102 only.
\<close>

theorem missing_group_has_no_row:
  "clean_dataset ref_env sales_table = Inr (sales_cleaned, sales_report) \<and>
   apply_transformations ref_env sales_cleaned sales_report =
     Inr (sales_sorted, sales_grouped, sales_report) \<and>
   cells_of (NumS [Some 101, Some 102, Some 101, None]) = [Num 101, Num 102, Num 101, Missing] \<and>
   aggregate_row Missing (totals_of_group [Num 101, Num 102, Num 101, Missing] [10, 20, 30, 7] Missing)
     = [Missing, Num 7, Num 7, Num 1] \<and>
   rows_of sales_grouped = [[Num 101, Num 40, Num 20, Num 2], [Num 102, Num 20, Num 20, Num 1]] \<and>
   [Missing, Num 7, Num 7, Num 1] \<notin> set (rows_of sales_grouped)"
proof (intro conjI)
  show "clean_dataset ref_env sales_table = Inr (sales_cleaned, sales_report)"
    by (rule sales_cleaning)
  show "apply_transformations ref_env sales_cleaned sales_report =
     Inr (sales_sorted, sales_grouped, sales_report)"
    by (rule sales_transformation)
  show "cells_of (NumS [Some 101, Some 102, Some 101, None]) = [Num 101, Num 102, Num 101, Missing]"
    by simp
  show "aggregate_row Missing (totals_of_group [Num 101, Num 102, Num 101, Missing] [10, 20, 30, 7] Missing)
     = [Missing, Num 7, Num 7, Num 1]"
    by (simp add: aggregate_row_def totals_of_group_def)
  show "rows_of sales_grouped = [[Num 101, Num 40, Num 20, Num 2], [Num 102, Num 20, Num 20, Num 1]]"
    by (rule sales_grouped_rows)
  show "[Missing, Num 7, Num 7, Num 1] \<notin> set (rows_of sales_grouped)"
    by (simp add: sales_grouped_rows)
qed

section \<open>One aggregate row per group\<close>

text \<open>Rows of a four-column frame.\<close>

lemma transpose_four:
  "transpose [map f1 xs, map f2 xs, map f3 xs, map f4 xs] = map (\<lambda>x. [f1 x, f2 x, f3 x, f4 x]) xs"
  by (induction xs) simp_all

lemma totals_of_group_typed:
  assumes "\<And>x. (f x = k) = (x = Some v)"
  shows "totals_of_group (map f ks) tot k = group_values ks tot v"
proof -
  have "filter (\<lambda>(g, t). g = k) (zip (map f ks) tot)
        = map (\<lambda>(g, t). (f g, t)) (filter (\<lambda>(g, t). g = Some v) (zip ks tot))"
  proof (induction ks arbitrary: tot)
    case Nil
    then show ?case by simp
  next
    case (Cons a ks)
    then show ?case by (cases tot) (auto simp: assms)
  qed
  then show ?thesis
    by (simp add: totals_of_group_def group_values_def comp_def case_prod_unfold)
qed

lemma set_group_keys: "set (group_keys ks) = {v. Some v \<in> set ks}"
  by (simp add: group_keys_def set_dropna)

lemma distinct_group_keys: "distinct (group_keys ks)"
  by (simp add: group_keys_def)

lemma aggregate_rows_typed:
  fixes ks :: "('a::linorder) option list" and inj :: "'a \<Rightarrow> cell" and tot :: "rat list"
  assumes inj: "\<And>a b. (inj a = inj b) = (a = b)" and nm: "\<And>a. inj a \<noteq> Missing"
  defines "f \<equiv> (\<lambda>x. case x of None \<Rightarrow> Missing | Some v \<Rightarrow> inj v)"
  defines "rows \<equiv> map (\<lambda>v. [inj v, Num (agg_sum (group_values ks tot v)),
                              Num (agg_mean (group_values ks tot v)),
                              Num (agg_count (group_values ks tot v))]) (group_keys ks)"
  shows "distinct rows \<and>
         set rows = (\<lambda>k. aggregate_row k (totals_of_group (map f ks) tot k)) `
                      (set (map f ks) - {Missing})"
proof
  show "distinct rows"
    unfolding rows_def by (simp add: distinct_map distinct_group_keys inj_on_def inj)
  have typed: "totals_of_group (map f ks) tot (inj v) = group_values ks tot v" for v
    by (rule totals_of_group_typed) (auto simp: f_def inj nm nm[symmetric] split: option.splits)
  have row: "[inj v, Num (agg_sum (group_values ks tot v)), Num (agg_mean (group_values ks tot v)),
              Num (agg_count (group_values ks tot v))]
             = aggregate_row (inj v) (totals_of_group (map f ks) tot (inj v))" for v
    by (simp add: typed aggregate_row_def agg_sum_def agg_mean_def agg_count_def)
  have keys: "set (map f ks) - {Missing} = inj ` {v. Some v \<in> set ks}"
  proof (intro set_eqI iffI)
    fix k assume "k \<in> set (map f ks) - {Missing}"
    then obtain x where x: "x \<in> set ks" "k = f x" "k \<noteq> Missing" by auto
    then have "x \<noteq> None" by (auto simp: f_def split: option.splits)
    then obtain v where "x = Some v" by auto
    with x show "k \<in> inj ` {v. Some v \<in> set ks}" by (auto simp: f_def)
  next
    fix k assume "k \<in> inj ` {v. Some v \<in> set ks}"
    then obtain v where v: "Some v \<in> set ks" "k = inj v" by auto
    then have "k = f (Some v)" by (simp add: f_def)
    with v(1) have "k \<in> f ` set ks" by (rule_tac image_eqI)
    with v show "k \<in> set (map f ks) - {Missing}" by (simp add: nm)
  qed
  have "set rows = (\<lambda>v. aggregate_row (inj v) (totals_of_group (map f ks) tot (inj v))) ` {v. Some v \<in> set ks}"
    unfolding rows_def by (simp add: row set_group_keys)
  also have "\<dots> = (\<lambda>k. aggregate_row k (totals_of_group (map f ks) tot k)) ` (inj ` {v. Some v \<in> set ks})"
    by (simp only: image_image)
  finally show "set rows = (\<lambda>k. aggregate_row k (totals_of_group (map f ks) tot k)) `
                      (set (map f ks) - {Missing})"
    by (simp only: keys)
qed

lemma rows_of_aggregate_frame:
  "distinct (rows_of (aggregate_frame g s tot)) \<and>
   set (rows_of (aggregate_frame g s tot)) =
     (\<lambda>k. aggregate_row k (totals_of_group (cells_of s) tot k)) ` (set (cells_of s) - {Missing})"
proof (cases s)
  case (NumS ks)
  have "rows_of (aggregate_frame g s tot) =
        map (\<lambda>v. [Num v, Num (agg_sum (group_values ks tot v)), Num (agg_mean (group_values ks tot v)),
                   Num (agg_count (group_values ks tot v))]) (group_keys ks)"
    by (simp add: NumS rows_of_def aggregate_frame_def comp_def transpose_four)
  with aggregate_rows_typed[of Num ks tot] NumS show ?thesis by simp
next
  case (ObjS ks)
  have "rows_of (aggregate_frame g s tot) =
        map (\<lambda>v. [Text v, Num (agg_sum (group_values ks tot v)), Num (agg_mean (group_values ks tot v)),
                   Num (agg_count (group_values ks tot v))]) (group_keys ks)"
    by (simp add: ObjS rows_of_def aggregate_frame_def comp_def transpose_four)
  with aggregate_rows_typed[of Text ks tot] ObjS show ?thesis by simp
next
  case (DtS ks)
  have "rows_of (aggregate_frame g s tot) =
        map (\<lambda>v. [Ts v, Num (agg_sum (group_values ks tot v)), Num (agg_mean (group_values ks tot v)),
                   Num (agg_count (group_values ks tot v))]) (group_keys ks)"
    by (simp add: DtS rows_of_def aggregate_frame_def comp_def transpose_four)
  with aggregate_rows_typed[of Ts ks tot] DtS show ?thesis by simp
qed

text \<open>
  C3, amended. Rows are grouped by equality of the grouping column's value; the rows
  whose grouping value is missing belong to no group. For every non-missing value \<open>k\<close>
  of the grouping column the aggregate table has exactly one row: \<open>k\<close>, the sum of
  \<^verbatim>\<open>total\<close> over the rows with that value, their mean, and their number; it has no
  other rows.
\<close>

theorem aggregate_rows_per_group:
  assumes "apply_transformations env df s = Inr (out, grouped, s')"
  shows "\<exists>tot gc.
           total_values env df = Inr tot \<and>
           group_col (set_total df tot) = Inr (cname gc) \<and>
           filter (\<lambda>c. cname c = cname gc) (columns (set_total df tot)) = [gc] \<and>
           distinct (rows_of grouped) \<and>
           set (rows_of grouped) =
             (\<lambda>k. aggregate_row k (totals_of_group (cells_of (cdata gc)) tot k)) `
               (set (cells_of (cdata gc)) - {Missing})"
proof -
  from apply_transformations_grouped[OF assms] obtain tot g where
    tv: "total_values env df = Inr tot" and gc: "group_col (set_total df tot) = Inr g"
    and ga: "groupby_agg (set_total df tot) g tot = Inr grouped"
    by auto
  from groupby_agg_columns[OF ga] obtain c where
    h: "filter (\<lambda>c. cname c = g) (columns (set_total df tot)) = [c] \<and>
        g \<noteq> ''total_sales'' \<and> g \<noteq> ''avg_total'' \<and> g \<noteq> ''count_rows'' \<and>
        grouped = aggregate_frame g (cdata c) tot" ..
  from h have f: "filter (\<lambda>c. cname c = g) (columns (set_total df tot)) = [c]"
    and gr: "grouped = aggregate_frame g (cdata c) tot" by simp_all
  from f have "c \<in> set (filter (\<lambda>c. cname c = g) (columns (set_total df tot)))" by simp
  then have n: "cname c = g" by simp
  show ?thesis
    using tv gc f rows_of_aggregate_frame[of g "cdata c" tot]
    unfolding gr n[symmetric]
    by (intro exI[of _ tot] exI[of _ c]) simp
qed

theorem aggregate_rows_per_group_witness:
  "apply_transformations ref_env sales_cleaned sales_report =
     Inr (sales_sorted, sales_grouped, sales_report) \<and>
   (\<exists>tot gc.
      total_values ref_env sales_cleaned = Inr tot \<and>
      group_col (set_total sales_cleaned tot) = Inr (cname gc) \<and>
      filter (\<lambda>c. cname c = cname gc) (columns (set_total sales_cleaned tot)) = [gc] \<and>
      distinct (rows_of sales_grouped) \<and>
      set (rows_of sales_grouped) =
        (\<lambda>k. aggregate_row k (totals_of_group (cells_of (cdata gc)) tot k)) `
          (set (cells_of (cdata gc)) - {Missing}))"
  using aggregate_rows_per_group[OF sales_transformation] sales_transformation by simp

text \<open>The example of the specification: keys x, x, y with totals 10, 20, 5.\<close>

lemma spec_aggregation_example:
  "rows_of (aggregate_frame ''product'' (ObjS [Some ''x'', Some ''x'', Some ''y'']) [10, 20, 5]) =
     [[Text ''x'', Num 30, Num 15, Num 2], [Text ''y'', Num 5, Num 5, Num 1]]"
  by code_simp

section \<open>The derived column\<close>

lemma find_none_in_names:
  assumes "set_iter_ok env" and "find P (set_iter env ns) = None"
  shows "\<forall>n\<in>set ns. \<not> P n"
proof -
  from assms(2) have "\<forall>n\<in>set (set_iter env ns). \<not> P n" by (simp add: find_None_iff)
  with assms(1) show ?thesis by (simp add: set_iter_ok_def)
qed

lemma find_some_in_names:
  assumes "set_iter_ok env" and "find P (set_iter env ns) = Some n"
  shows "n \<in> set ns \<and> P n"
proof -
  from assms(2) have "n \<in> set (set_iter env ns) \<and> P n"
    by (auto simp: find_Some_iff in_set_conv_nth)
  with assms(1) show ?thesis by (simp add: set_iter_ok_def)
qed

lemma set_total_column:
  assumes "distinct (column_names df)"
  shows "filter (\<lambda>c. cname c = ''total'') (columns (set_total df tot))
           = [\<lparr>cname = ''total'', cdata = NumS (map Some tot)\<rparr>]"
proof (cases "''total'' \<in> set (column_names df)")
  case False
  then have "filter (\<lambda>c. cname c = ''total'') (columns df) = []"
    by (auto simp: filter_empty_conv column_names_def image_iff)
  with False show ?thesis by (simp add: set_total_def)
next
  case True
  from column_by_name[OF assms True] obtain c where
    c: "cname c = ''total''" and f: "filter (\<lambda>c. cname c = ''total'') (columns df) = [c]"
    by auto
  have upd: "filter (\<lambda>c. cname c = ''total'')
          (map (\<lambda>c. if cname c = ''total'' then c\<lparr>cdata := NumS (map Some tot)\<rparr> else c) xs)
        = map (\<lambda>c. c\<lparr>cdata := NumS (map Some tot)\<rparr>) (filter (\<lambda>c. cname c = ''total'') xs)" for xs :: "column list"
    by (induction xs) auto
  have eq: "c\<lparr>cdata := NumS (map Some tot)\<rparr> = \<lparr>cname = ''total'', cdata = NumS (map Some tot)\<rparr>"
    using c by (cases c) simp
  have "filter (\<lambda>c. cname c = ''total'') (columns (set_total df tot))
        = map (\<lambda>c. c\<lparr>cdata := NumS (map Some tot)\<rparr>) (filter (\<lambda>c. cname c = ''total'') (columns df))"
    using True by (simp add: set_total_def upd)
  also have "\<dots> = [\<lparr>cname = ''total'', cdata = NumS (map Some tot)\<rparr>]"
    by (simp only: f list.map eq)
  finally show ?thesis .
qed

text \<open>
  The coerced value of a cell, with 0 for a cell that has none, is the specification's
  \<^verbatim>\<open>numeric(cell, default 0)\<close> for every numeric and every text column.
\<close>

lemma coerced_cell:
  assumes "is_numeric_dtype s \<or> is_object_dtype s" and "i < slen s"
  shows "value_or_zero (to_numeric env s ! i)
         = spec_numeric_default_zero (parse_number env) (cells_of s ! i)"
proof (cases s)
  case (NumS xs)
  with assms(2) show ?thesis by (simp add: value_or_zero_def split: option.splits)
next
  case (ObjS xs)
  with assms(2) show ?thesis by (simp add: value_or_zero_def split: option.splits)
next
  case (DtS xs)
  with assms(1) show ?thesis by simp
qed

text \<open>
  The derived column on tables with unique labels. The step assigns a \<^verbatim>\<open>total\<close> column
  with one value per row. If a price-like column (\<^verbatim>\<open>price\<close> or \<^verbatim>\<open>unit_price\<close>) and a
  quantity-like column (\<^verbatim>\<open>quantity\<close> or \<^verbatim>\<open>qty\<close>) are both present and hold numbers or
  text, every row's total is \<^verbatim>\<open>numeric(price, default 0) * numeric(quantity, default 0)\<close>
  of its two cells; if one of them is absent, every row's total is 1. (A timestamp
  column is read as its integers, a missing timestamp as the smallest of them.)
\<close>

lemma total_on_unique_labels:
  assumes "set_iter_ok env" and "wf_df df"
    and "\<forall>c\<in>set (columns df).
           cname c \<in> {''price'', ''unit_price'', ''quantity'', ''qty''} \<longrightarrow>
           is_numeric_dtype (cdata c) \<or> is_object_dtype (cdata c)"
  shows "\<exists>tot.
           total_values env df = Inr tot \<and> length tot = len df \<and>
           filter (\<lambda>c. cname c = ''total'') (columns (set_total df tot))
             = [\<lparr>cname = ''total'', cdata = NumS (map Some tot)\<rparr>] \<and>
           (if (''price'' \<in> set (column_names df) \<or> ''unit_price'' \<in> set (column_names df)) \<and>
               (''quantity'' \<in> set (column_names df) \<or> ''qty'' \<in> set (column_names df))
            then \<exists>pc qc.
                   pc \<in> set (columns df) \<and> cname pc \<in> {''price'', ''unit_price''} \<and>
                   qc \<in> set (columns df) \<and> cname qc \<in> {''quantity'', ''qty''} \<and>
                   (\<forall>i<len df.
                      tot ! i = spec_numeric_default_zero (parse_number env) (cells_of (cdata pc) ! i) *
                                spec_numeric_default_zero (parse_number env) (cells_of (cdata qc) ! i))
            else \<forall>i<len df. tot ! i = 1)"
proof -
  from assms(2) have dn: "distinct (column_names df)" and re: "rect df"
    by (simp_all add: wf_df_rect)
  let ?P = "\<lambda>c. c \<in> {''price'', ''unit_price''}"
  let ?Q = "\<lambda>c. c \<in> {''quantity'', ''qty''}"
  let ?num = "spec_numeric_default_zero (parse_number env)"
  show ?thesis
  proof (cases "price_col env df")
    case None
    then have "\<forall>n\<in>set (column_names df). \<not> ?P n"
      unfolding price_col_def by (rule find_none_in_names[OF assms(1)])
    then have "\<not> (''price'' \<in> set (column_names df) \<or> ''unit_price'' \<in> set (column_names df))"
      by auto
    with None show ?thesis
      by (simp add: total_values_def set_total_column[OF dn] len_def)
  next
    case (Some p)
    then have "p \<in> set (column_names df) \<and> ?P p"
      unfolding price_col_def by (rule find_some_in_names[OF assms(1)])
    then have p: "p \<in> set (column_names df)" "?P p" by simp_all
    show ?thesis
    proof (cases "qty_col env df")
      case None
      then have "\<forall>n\<in>set (column_names df). \<not> ?Q n"
        unfolding qty_col_def by (rule find_none_in_names[OF assms(1)])
      then have "\<not> (''quantity'' \<in> set (column_names df) \<or> ''qty'' \<in> set (column_names df))"
        by auto
      with None Some show ?thesis
        by (simp add: total_values_def set_total_column[OF dn] len_def)
    next
      case qs: (Some q)
      then have "q \<in> set (column_names df) \<and> ?Q q"
        unfolding qty_col_def by (rule find_some_in_names[OF assms(1)])
      then have q: "q \<in> set (column_names df)" "?Q q" by simp_all
      from column_by_name[OF dn p(1)] obtain pc where
        pc: "pc \<in> set (columns df)" "cname pc = p" "filter (\<lambda>c. cname c = p) (columns df) = [pc]"
        by auto
      from column_by_name[OF dn q(1)] obtain qc where
        qc: "qc \<in> set (columns df)" "cname qc = q" "filter (\<lambda>c. cname c = q) (columns df) = [qc]"
        by auto
      let ?ps = "map value_or_zero (to_numeric env (cdata pc))"
      let ?qs = "map value_or_zero (to_numeric env (cdata qc))"
      let ?tot = "map2 (*) ?ps ?qs"
      have tv: "total_values env df = Inr ?tot"
        using Some qs by (simp add: total_values_def numeric_or_zero_unique[OF pc(3)]
            numeric_or_zero_unique[OF qc(3)])
      from re pc(1) qc(1) have lens: "slen (cdata pc) = len df" "slen (cdata qc) = len df"
        by (simp_all add: rect_def list_all_iff)
      then have len: "length ?tot = len df" by simp
      from assms(3) pc(1,2) p(2) have kp: "is_numeric_dtype (cdata pc) \<or> is_object_dtype (cdata pc)"
        by auto
      from assms(3) qc(1,2) q(2) have kq: "is_numeric_dtype (cdata qc) \<or> is_object_dtype (cdata qc)"
        by auto
      have rows: "\<forall>i<len df. ?tot ! i = ?num (cells_of (cdata pc) ! i) * ?num (cells_of (cdata qc) ! i)"
      proof (intro allI impI)
        fix i assume i: "i < len df"
        with lens have "?tot ! i = value_or_zero (to_numeric env (cdata pc) ! i) *
                                  value_or_zero (to_numeric env (cdata qc) ! i)"
          by simp
        also have "value_or_zero (to_numeric env (cdata pc) ! i) = ?num (cells_of (cdata pc) ! i)"
          using i lens(1) by (intro coerced_cell[OF kp]) simp
        also have "value_or_zero (to_numeric env (cdata qc) ! i) = ?num (cells_of (cdata qc) ! i)"
          using i lens(2) by (intro coerced_cell[OF kq]) simp
        finally show "?tot ! i = ?num (cells_of (cdata pc) ! i) * ?num (cells_of (cdata qc) ! i)" .
      qed
      have both: "(''price'' \<in> set (column_names df) \<or> ''unit_price'' \<in> set (column_names df)) \<and>
               (''quantity'' \<in> set (column_names df) \<or> ''qty'' \<in> set (column_names df))"
        using p q by auto
      have ex: "\<exists>pc qc.
                   pc \<in> set (columns df) \<and> cname pc \<in> {''price'', ''unit_price''} \<and>
                   qc \<in> set (columns df) \<and> cname qc \<in> {''quantity'', ''qty''} \<and>
                   (\<forall>i<len df. ?tot ! i = ?num (cells_of (cdata pc) ! i) * ?num (cells_of (cdata qc) ! i))"
        using pc(1,2) qc(1,2) p(2) q(2) rows by (intro exI[of _ pc] exI[of _ qc]) simp
      show ?thesis
        using tv len both ex
        by (intro exI[of _ ?tot]) (simp add: set_total_column[OF dn])
    qed
  qed
qed

text \<open>
  On the ledger the price that is not a number, the missing price and the missing
  quantity all count as 0; on a table without price and quantity every total is 1.
\<close>

lemma ledger_totals: "total_values ref_env ledger_table = Inr [8, 0, 0, 0]"
  by code_simp

lemma ledger_totals_as_specified:
  "map2 (\<lambda>p q. spec_numeric_default_zero parse_integer_literal p *
               spec_numeric_default_zero parse_integer_literal q)
     [Text ''4'', Text ''free'', Missing, Text ''6''] [Num 2, Num 3, Num 5, Missing]
   = [8, 0, 0, 0]"
  by code_simp

lemma sales_totals: "total_values ref_env sales_cleaned = Inr [10, 20, 30, 7]"
  by code_simp

lemma fallback_totals:
  "total_values ref_env
     \<lparr>index = [0, 1], columns = [\<lparr>cname = ''name'', cdata = ObjS [Some ''a'', Some ''b'']\<rparr>]\<rparr>
   = Inr [1, 1]"
  by code_simp

lemma units_cleaning: "clean_dataset ref_env units_table = Inr (units_cleaned, units_report)"
  by code_simp

text \<open>
  C7 fails on the code where a label is repeated. The Cleaner turns the two labels
  \<^verbatim>\<open>Unit Price\<close> and \<^verbatim>\<open>unit_price\<close> of the two offers into the same label. On the
  cleaned table a price-like and a quantity-like column are both found, yet the
  derived-column step raises \<^verbatim>\<open>TypeError\<close> and no row gets a total: the claim asks
  for the products 15 and 8 (or 18 and 9).
\<close>

theorem repeated_price_label_gets_no_total:
  "clean_dataset ref_env units_table = Inr (units_cleaned, units_report) \<and>
   column_names units_cleaned = [''unit_price'', ''unit_price'', ''quantity''] \<and>
   price_col ref_env units_cleaned = Some ''unit_price'' \<and>
   qty_col ref_env units_cleaned = Some ''quantity'' \<and>
   total_values ref_env units_cleaned = Inl TypeError \<and>
   apply_transformations ref_env units_cleaned units_report = Inl TypeError"
proof -
  have n: "column_names units_cleaned = [''unit_price'', ''unit_price'', ''quantity'']"
    by (simp add: units_cleaned_def column_names_def)
  have p: "price_col ref_env units_cleaned = Some ''unit_price''" by code_simp
  have q: "qty_col ref_env units_cleaned = Some ''quantity''" by code_simp
  have t: "total_values ref_env units_cleaned = Inl TypeError" by code_simp
  have a: "apply_transformations ref_env units_cleaned units_report = Inl TypeError"
    by (simp add: apply_transformations_def t)
  from units_cleaning n p q t a show ?thesis by simp
qed

section \<open>Imputation of non-numeric columns\<close>

lemma fold_max_upper: "\<forall>n\<in>set ns. n \<le> fold max ns (a::nat)"
proof -
  have "fold max ns a = Max (set (a # ns))" by (simp only: Max.set_eq_fold)
  then show ?thesis by simp
qed

lemma fold_max_attained:
  assumes "ns \<noteq> []" and "\<forall>n\<in>set ns. 0 < n"
  shows "fold max ns (0::nat) \<in> set ns"
proof -
  have m: "fold max ns 0 = Max (set (0 # ns))" by (simp only: Max.set_eq_fold)
  have "Max (set (0 # ns)) \<in> set (0 # ns)" by (rule Max_in) simp_all
  moreover from assms obtain n where "n \<in> set ns" "0 < n" by (cases ns) auto
  then have "0 < Max (set (0 # ns))" by (auto simp: Max_gr_iff)
  ultimately show ?thesis using m by auto
qed

lemma count_list_pos: "w \<in> set vs \<Longrightarrow> 0 < count_list vs w"
  by (simp add: count_list_0_iff zero_less_iff_neq_zero)

lemma mode_eq_Nil: "(mode xs = []) = (dropna xs = [])"
proof
  assume "dropna xs = []"
  then show "mode xs = []" by (simp add: mode_def)
next
  assume e: "mode xs = []"
  show "dropna xs = []"
  proof (rule ccontr)
    assume ne: "dropna xs \<noteq> []"
    let ?vs = "dropna xs"
    let ?top = "fold max (map (count_list ?vs) ?vs) 0"
    have "?top \<in> set (map (count_list ?vs) ?vs)"
      using ne by (intro fold_max_attained) (auto simp: count_list_pos)
    then obtain w where "w \<in> set ?vs" "count_list ?vs w = ?top" by auto
    then have "w \<in> set (filter (\<lambda>v. count_list ?vs v = ?top) (remdups ?vs))" by simp
    then have "set (mode xs) \<noteq> {}" by (auto simp: mode_def Let_def)
    with e show False by simp
  qed
qed

lemma mode_hd:
  fixes xs :: "('a::linorder) option list"
  assumes "dropna xs \<noteq> []"
  defines "vs \<equiv> dropna xs" and "v \<equiv> hd (mode xs)"
  shows "v \<in> set vs" and "\<forall>w\<in>set vs. count_list vs w \<le> count_list vs v"
    and "\<forall>w\<in>set vs. count_list vs w = count_list vs v \<longrightarrow> v \<le> w"
proof -
  let ?top = "fold max (map (count_list vs) vs) 0"
  let ?ms = "filter (\<lambda>v. count_list vs v = ?top) (remdups vs)"
  have m: "mode xs = sort ?ms" by (simp add: mode_def vs_def Let_def)
  from assms(1) have "mode xs \<noteq> []" by (simp add: mode_eq_Nil)
  then obtain y ys where y: "mode xs = y # ys" by (cases "mode xs") auto
  then have v: "v = y" by (simp add: v_def)
  have "y \<in> set (mode xs)" using y by simp
  then have yin: "y \<in> set ?ms" by (simp only: m set_sort)
  then show "v \<in> set vs" using v by simp
  from yin have top: "count_list vs y = ?top" by simp
  show "\<forall>w\<in>set vs. count_list vs w \<le> count_list vs v"
    using fold_max_upper[of "map (count_list vs) vs" 0] by (simp add: v top)
  have "sorted (y # ys)" using y[symmetric] by (simp only: m sorted_sort)
  then have le: "\<forall>z\<in>set (y # ys). y \<le> z" by auto
  show "\<forall>w\<in>set vs. count_list vs w = count_list vs v \<longrightarrow> v \<le> w"
  proof (intro ballI impI)
    fix w assume "w \<in> set vs" "count_list vs w = count_list vs v"
    then have "w \<in> set ?ms" by (simp add: v top)
    then have "w \<in> set (mode xs)" by (simp only: m set_sort)
    with le y show "v \<le> w" by (auto simp: v)
  qed
qed

lemma count_list_map_inj:
  assumes "\<And>a b. (g a = g b) = (a = b)"
  shows "count_list (map g ys) (g w) = count_list ys w"
  by (induction ys) (simp_all add: assms)

lemma present_typed:
  assumes "\<And>a. g a \<noteq> Missing"
  shows "filter (\<lambda>x. x \<noteq> Missing) (map (\<lambda>x. case x of None \<Rightarrow> Missing | Some v \<Rightarrow> g v) xs)
         = map g (dropna xs)"
  by (induction xs rule: dropna.induct) (simp_all add: assms)

lemma missing_typed:
  assumes "\<And>a. g a \<noteq> Missing"
  shows "count_list (map (\<lambda>x. case x of None \<Rightarrow> Missing | Some v \<Rightarrow> g v) xs) Missing = isna_sum xs"
  by (induction xs rule: dropna.induct) (simp_all add: assms isna_sum_def)

lemma missing_in_typed:
  assumes "\<And>a. g a \<noteq> Missing"
  shows "(Missing \<in> set (map (\<lambda>x. case x of None \<Rightarrow> Missing | Some v \<Rightarrow> g v) xs)) = isna_any xs"
  by (induction xs rule: dropna.induct) (simp_all add: assms assms[symmetric] isna_any_def)

lemma fillna_typed:
  assumes "\<And>a. g a \<noteq> Missing"
  shows "map (\<lambda>x. case x of None \<Rightarrow> Missing | Some v \<Rightarrow> g v) (fillna u xs)
         = map (\<lambda>x. if x = Missing then g u else x)
             (map (\<lambda>x. case x of None \<Rightarrow> Missing | Some v \<Rightarrow> g v) xs)"
  by (induction xs rule: dropna.induct) (simp_all add: assms fillna_def)

lemma all_missing_typed:
  assumes "dropna xs = []"
  shows "map (\<lambda>x. Text u) xs
         = map (\<lambda>x. if x = Missing then Text u else x)
             (map (\<lambda>x. case x of None \<Rightarrow> Missing | Some v \<Rightarrow> g v) xs)"
  using assms by (induction xs rule: dropna.induct) simp_all

lemma mode_cells_typed:
  fixes xs :: "('a::linorder) option list" and g :: "'a \<Rightarrow> cell"
  assumes inj: "\<And>a b. (g a = g b) = (a = b)" and nm: "\<And>a. g a \<noteq> Missing"
    and le: "\<And>a b. cell_le (g a) (g b) = (a \<le> b)"
    and ne: "dropna xs \<noteq> []"
  defines "vs \<equiv> map g (dropna xs)" and "v \<equiv> g (hd (mode xs))"
  shows "v \<in> set vs \<and>
         (\<forall>w\<in>set vs. count_list vs w \<le> count_list vs v) \<and>
         (\<forall>w\<in>set vs. count_list vs w = count_list vs v \<longrightarrow> cell_le v w)"
proof -
  note h = mode_hd[OF ne]
  have cnt: "count_list vs (g w) = count_list (dropna xs) w" for w
    unfolding vs_def by (rule count_list_map_inj) (rule inj)
  from h(1) have 1: "v \<in> set vs" by (simp add: v_def vs_def)
  from h(2) have 2: "\<forall>w\<in>set vs. count_list vs w \<le> count_list vs v"
    by (auto simp: v_def cnt) (auto simp: vs_def cnt[unfolded vs_def] count_list_map_inj[OF inj])
  from h(3) have 3: "\<forall>w\<in>set vs. count_list vs w = count_list vs v \<longrightarrow> cell_le v w"
    by (auto simp: v_def vs_def le count_list_map_inj[OF inj])
  from 1 2 3 show ?thesis by simp
qed

lemma impute_loop_sums:
  "impute_loop cs =
     (map (\<lambda>c. fst (impute_column c)) cs,
      sum_list (map (\<lambda>c. fst (snd (impute_column c))) cs),
      sum_list (map (\<lambda>c. snd (snd (impute_column c))) cs))"
  by (induction cs) (auto split: prod.splits)

lemma cities_cleaning:
  "clean_dataset ref_env cities_table =
     Inr (\<lparr>index = [0, 1, 2],
           columns = [\<lparr>cname = ''city'', cdata = ObjS [Some ''oslo'', Some ''rome'', Some ''oslo'']\<rparr>]\<rparr>,
          \<lparr>rows_before = 3, rows_after_cleaning = 3, rows_after_transform = 3,
           removed_duplicates = 0, filled_missing_numeric = 0, filled_missing_text = 1,
           removed_invalid_rows = 0\<rparr>)"
  by code_simp

lemma city_imputation:
  "impute_column \<lparr>cname = ''city'', cdata = ObjS [None, Some ''rome'', Some ''oslo'']\<rparr>
   = (\<lparr>cname = ''city'', cdata = ObjS [Some ''oslo'', Some ''rome'', Some ''oslo'']\<rparr>, 0, 1)"
  by code_simp

text \<open>
  C1, as stated, fails on ties. In the column (missing, rome, oslo) both cities occur
  once; the first to appear is \<^verbatim>\<open>rome\<close>, which is what the claim prescribes, but the
  imputation step and the whole Cleaner fill the missing cell with \<^verbatim>\<open>oslo\<close>: pandas
  returns the modes in ascending order and the code takes the first of them.
\<close>

theorem tie_not_broken_by_first_appearance:
  "spec_fill_value [None, Some ''rome'', Some ''oslo''] = ''rome'' \<and>
   impute_column \<lparr>cname = ''city'', cdata = ObjS [None, Some ''rome'', Some ''oslo'']\<rparr>
     = (\<lparr>cname = ''city'', cdata = ObjS [Some ''oslo'', Some ''rome'', Some ''oslo'']\<rparr>, 0, 1) \<and>
   clean_dataset ref_env cities_table =
     Inr (\<lparr>index = [0, 1, 2],
           columns = [\<lparr>cname = ''city'', cdata = ObjS [Some ''oslo'', Some ''rome'', Some ''oslo'']\<rparr>]\<rparr>,
          \<lparr>rows_before = 3, rows_after_cleaning = 3, rows_after_transform = 3,
           removed_duplicates = 0, filled_missing_numeric = 0, filled_missing_text = 1,
           removed_invalid_rows = 0\<rparr>)"
proof (intro conjI)
  show "spec_fill_value [None, Some ''rome'', Some ''oslo''] = ''rome''"
    by code_simp
qed (rule city_imputation, rule cities_cleaning)

text \<open>
  C1, amended. For every non-numeric column with at least one missing cell the
  imputation step replaces every missing cell, and only those, by one value \<open>v\<close>, and
  the increment of \<^verbatim>\<open>filled_missing_text\<close> for the column is the number of cells
  replaced (the increment of \<^verbatim>\<open>filled_missing_numeric\<close> is 0). If the column has no
  non-missing value, \<open>v\<close> is the text \<^verbatim>\<open>unknown\<close>. Otherwise \<open>v\<close> is a most frequent
  non-missing value of the column, and among equally frequent values the smallest one.
  The loop over the columns adds up the increments of its columns
  (\<open>impute_loop_sums\<close>).
\<close>

theorem text_imputation:
  assumes "\<not> is_numeric_dtype (cdata c)" and "Missing \<in> set (cells_of (cdata c))"
  shows "\<exists>v. cells_of (cdata (fst (impute_column c)))
               = map (\<lambda>x. if x = Missing then v else x) (cells_of (cdata c)) \<and>
             cname (fst (impute_column c)) = cname c \<and>
             snd (impute_column c) = (0, int (count_list (cells_of (cdata c)) Missing)) \<and>
             (if present_cells (cdata c) = [] then v = Text ''unknown''
              else v \<in> set (present_cells (cdata c)) \<and>
                   (\<forall>w\<in>set (present_cells (cdata c)).
                      count_list (present_cells (cdata c)) w \<le> count_list (present_cells (cdata c)) v) \<and>
                   (\<forall>w\<in>set (present_cells (cdata c)).
                      count_list (present_cells (cdata c)) w = count_list (present_cells (cdata c)) v
                      \<longrightarrow> cell_le v w))"
proof (cases "cdata c")
  case (NumS xs)
  with assms(1) show ?thesis by simp
next
  case (ObjS xs)
  have nm: "\<And>a. Text a \<noteq> Missing" by simp
  from assms(2) ObjS
  have "Missing \<in> set (map (\<lambda>x. case x of None \<Rightarrow> Missing | Some v \<Rightarrow> Text v) xs)" by simp
  then have na: "isna_any xs" by (simp only: missing_in_typed[OF nm])
  have pc: "present_cells (cdata c) = map Text (dropna xs)"
    by (simp add: ObjS present_cells_def present_typed[OF nm])
  have mc: "count_list (cells_of (cdata c)) Missing = isna_sum xs"
    by (simp add: ObjS missing_typed[OF nm])
  have ic: "impute_column c = (c\<lparr>cdata := ObjS (fillna (fill_val xs) xs)\<rparr>, 0, int (isna_sum xs))"
    using na by (simp add: impute_column_def ObjS)
  have cells: "cells_of (cdata (fst (impute_column c)))
               = map (\<lambda>x. if x = Missing then Text (fill_val xs) else x) (cells_of (cdata c))"
    by (simp add: ic ObjS fillna_typed[OF nm])
  show ?thesis
  proof (cases "dropna xs = []")
    case True
    then have "fill_val xs = ''unknown''" by (simp add: fill_val_def mode_eq_Nil[symmetric])
    with cells True show ?thesis
      by (intro exI[of _ "Text ''unknown''"]) (simp add: ic mc pc)
  next
    case False
    then obtain y ys where y: "mode xs = y # ys"
      by (cases "mode xs") (auto simp: mode_eq_Nil)
    then have fv: "fill_val xs = hd (mode xs)" by (simp add: fill_val_def)
    have "Text (hd (mode xs)) \<in> set (map Text (dropna xs)) \<and>
         (\<forall>w\<in>set (map Text (dropna xs)).
            count_list (map Text (dropna xs)) w \<le> count_list (map Text (dropna xs)) (Text (hd (mode xs)))) \<and>
         (\<forall>w\<in>set (map Text (dropna xs)).
            count_list (map Text (dropna xs)) w = count_list (map Text (dropna xs)) (Text (hd (mode xs)))
            \<longrightarrow> cell_le (Text (hd (mode xs))) w)"
      by (rule mode_cells_typed) (simp_all add: False)
    with cells False show ?thesis
      by (intro exI[of _ "Text (hd (mode xs))"]) (simp add: ic mc pc fv)
  qed
next
  case (DtS xs)
  have nm: "\<And>a. Ts a \<noteq> Missing" by simp
  from assms(2) DtS
  have "Missing \<in> set (map (\<lambda>x. case x of None \<Rightarrow> Missing | Some v \<Rightarrow> Ts v) xs)" by simp
  then have na: "isna_any xs" by (simp only: missing_in_typed[OF nm])
  have pc: "present_cells (cdata c) = map Ts (dropna xs)"
    by (simp add: DtS present_cells_def present_typed[OF nm])
  have mc: "count_list (cells_of (cdata c)) Missing = isna_sum xs"
    by (simp add: DtS missing_typed[OF nm])
  show ?thesis
  proof (cases "dropna xs = []")
    case True
    then have m: "mode xs = []" by (simp add: mode_eq_Nil)
    have ic: "impute_column c = (c\<lparr>cdata := ObjS (map (\<lambda>x. Some ''unknown'') xs)\<rparr>, 0, int (isna_sum xs))"
      using na m by (simp add: impute_column_def DtS)
    have "cells_of (cdata (fst (impute_column c)))
               = map (\<lambda>x. if x = Missing then Text ''unknown'' else x) (cells_of (cdata c))"
      using all_missing_typed[OF True, of "''unknown''" Ts]
      by (simp add: ic DtS comp_def)
    with True show ?thesis
      by (intro exI[of _ "Text ''unknown''"]) (simp add: ic mc pc)
  next
    case False
    then obtain y ys where y: "mode xs = y # ys"
      by (cases "mode xs") (auto simp: mode_eq_Nil)
    then have hd: "hd (mode xs) = y" by simp
    have ic: "impute_column c = (c\<lparr>cdata := DtS (fillna y xs)\<rparr>, 0, int (isna_sum xs))"
      using na y by (simp add: impute_column_def DtS)
    have cells: "cells_of (cdata (fst (impute_column c)))
               = map (\<lambda>x. if x = Missing then Ts y else x) (cells_of (cdata c))"
      by (simp add: ic DtS fillna_typed[OF nm])
    have "Ts (hd (mode xs)) \<in> set (map Ts (dropna xs)) \<and>
         (\<forall>w\<in>set (map Ts (dropna xs)).
            count_list (map Ts (dropna xs)) w \<le> count_list (map Ts (dropna xs)) (Ts (hd (mode xs)))) \<and>
         (\<forall>w\<in>set (map Ts (dropna xs)).
            count_list (map Ts (dropna xs)) w = count_list (map Ts (dropna xs)) (Ts (hd (mode xs)))
            \<longrightarrow> cell_le (Ts (hd (mode xs))) w)"
      by (rule mode_cells_typed) (simp_all add: False)
    with cells False show ?thesis
      by (intro exI[of _ "Ts y"]) (simp add: ic mc pc hd)
  qed
qed

text \<open>The imputation theorem at the column (missing, rome, oslo).\<close>

theorem text_imputation_witness:
  "\<not> is_numeric_dtype (ObjS [None, Some ''rome'', Some ''oslo'']) \<and>
   Missing \<in> set (cells_of (ObjS [None, Some ''rome'', Some ''oslo''])) \<and>
   (\<exists>v. [Text ''oslo'', Text ''rome'', Text ''oslo'']
           = map (\<lambda>x. if x = Missing then v else x) [Missing, Text ''rome'', Text ''oslo''] \<and>
         v \<in> set [Text ''rome'', Text ''oslo''] \<and>
         (\<forall>w\<in>set [Text ''rome'', Text ''oslo''].
            count_list [Text ''rome'', Text ''oslo''] w \<le> count_list [Text ''rome'', Text ''oslo''] v) \<and>
         (\<forall>w\<in>set [Text ''rome'', Text ''oslo''].
            count_list [Text ''rome'', Text ''oslo''] w = count_list [Text ''rome'', Text ''oslo''] v
            \<longrightarrow> cell_le v w))"
proof -
  let ?c = "\<lparr>cname = ''city'', cdata = ObjS [None, Some ''rome'', Some ''oslo'']\<rparr>"
  have a: "\<not> is_numeric_dtype (cdata ?c)" by simp
  have b: "Missing \<in> set (cells_of (cdata ?c))" by simp
  have p: "present_cells (cdata ?c) = [Text ''rome'', Text ''oslo'']"
    by (simp add: present_cells_def)
  from text_imputation[OF a b] show ?thesis
    by (simp add: city_imputation p)
qed

section \<open>What the two stages do to the table they are given\<close>

subsection \<open>Reading and assigning columns\<close>

lemma getitem_Some:
  assumes "distinct (column_names d)" and "c \<in> set (columns d)"
  shows "getitem d (cname c) = Some c"
proof -
  from assms(1) have "distinct (map cname (columns d))" by (simp add: column_names_def)
  from filter_unique_name[OF this assms(2)] show ?thesis by (simp add: getitem_def)
qed

lemma getitem_in:
  assumes "getitem d col = Some c"
  shows "c \<in> set (columns d) \<and> cname c = col"
proof -
  from assms have "filter (\<lambda>c. cname c = col) (columns d) = [c]"
    by (auto simp: getitem_def split: list.splits)
  then have "c \<in> set (filter (\<lambda>c. cname c = col) (columns d))" by simp
  then show ?thesis by simp
qed

lemma getitem_names:
  assumes "distinct (column_names d)" and "col \<in> set (column_names d)"
  shows "\<exists>c. getitem d col = Some c"
  using column_by_name[OF assms] by (auto simp: getitem_def)

lemma column_names_setitem [simp]: "column_names (setitem col s d) = column_names d"
proof -
  have "map cname (map (\<lambda>c. if cname c = col then c\<lparr>cdata := s\<rparr> else c) cs) = map cname cs"
    for cs :: "column list"
    by (induction cs) auto
  then show ?thesis by (simp add: setitem_def column_names_def)
qed

lemma getitem_setitem_other:
  assumes "l \<noteq> col"
  shows "getitem (setitem col s d) l = getitem d l"
proof -
  have "filter (\<lambda>c. cname c = l) (map (\<lambda>c. if cname c = col then c\<lparr>cdata := s\<rparr> else c) cs)
        = filter (\<lambda>c. cname c = l) cs" for cs :: "column list"
    using assms by (induction cs) auto
  then show ?thesis by (simp add: getitem_def setitem_def)
qed

lemma setitem_apply:
  assumes "distinct (column_names d)" and "c \<in> set (columns d)" and "cname (f c) = cname c"
  shows "setitem (cname c) (cdata (f c)) d
         = d\<lparr>columns := map (\<lambda>x. if cname x = cname c then f x else x) (columns d)\<rparr>"
proof -
  from assms(1) have "inj_on cname (set (columns d))"
    by (simp add: column_names_def distinct_map)
  with assms(2) have u: "\<forall>x\<in>set (columns d). cname x = cname c \<longrightarrow> x = c"
    by (auto dest: inj_onD)
  have eq: "c\<lparr>cdata := cdata (f c)\<rparr> = f c"
    using assms(3) by (intro column.equality) simp_all
  have "map (\<lambda>x. if cname x = cname c then x\<lparr>cdata := cdata (f c)\<rparr> else x) (columns d)
        = map (\<lambda>x. if cname x = cname c then f x else x) (columns d)"
    using u eq by (intro map_cong) auto
  then show ?thesis by (simp add: setitem_def)
qed

subsection \<open>The two loops of the Cleaner write to one object\<close>

lemma impute_loop_on_shape:
  assumes "impute_loop_on df cols h = (h', res)"
  shows "length h' = length h \<and> (\<forall>r. r \<noteq> df \<longrightarrow> h' ! r = h ! r)"
  using assms
proof (induction cols arbitrary: h h' res)
  case Nil
  then show ?case by simp
next
  case (Cons col cols)
  show ?case
  proof (cases "getitem (h ! df) col")
    case None
    with Cons.prems show ?thesis by simp
  next
    case (Some c)
    obtain c' n t where ic: "impute_column c = (c', n, t)" by (cases "impute_column c") auto
    let ?h1 = "h[df := setitem col (cdata c') (h ! df)]"
    obtain h2 res2 where rec: "impute_loop_on df cols ?h1 = (h2, res2)"
      by (cases "impute_loop_on df cols ?h1") auto
    from Cons.prems Some ic rec have "h' = h2"
      by (auto split: sum.splits)
    with Cons.IH[OF rec] show ?thesis by simp
  qed
qed

lemma length_impute_loop_on [simp]: "length (fst (impute_loop_on df cols h)) = length h"
  using impute_loop_on_shape[of df cols h] by (cases "impute_loop_on df cols h") simp

lemma impute_loop_on_other:
  "r \<noteq> df \<Longrightarrow> fst (impute_loop_on df cols h) ! r = h ! r"
  using impute_loop_on_shape[of df cols h] by (cases "impute_loop_on df cols h") simp

lemma length_standardize_loop_on [simp]: "length (standardize_loop_on env df cols h) = length h"
  by (induction cols arbitrary: h) (auto split: option.splits)

lemma standardize_loop_on_other:
  "r \<noteq> df \<Longrightarrow> standardize_loop_on env df cols h ! r = h ! r"
  by (induction cols arbitrary: h) (auto split: option.splits)

subsection \<open>The loops on the object compute what the loops on the columns compute\<close>

lemma impute_loop_on_labels:
  assumes "df < length h" and "distinct (column_names (h ! df))"
    and "distinct ls" and "set ls \<subseteq> set (column_names (h ! df))"
  shows "impute_loop_on df ls h =
           (h[df := (h ! df)\<lparr>columns := map (\<lambda>x. if cname x \<in> set ls then fst (impute_column x) else x)
                                           (columns (h ! df))\<rparr>],
            Inr (snd (impute_loop (map (\<lambda>l. the (getitem (h ! df) l)) ls))))"
  using assms
proof (induction ls arbitrary: h)
  case Nil
  then show ?case by simp
next
  case (Cons col cols)
  let ?d = "h ! df"
  let ?f = "\<lambda>x. fst (impute_column x)"
  from Cons.prems(4) have "col \<in> set (column_names ?d)" by simp
  from getitem_names[OF Cons.prems(2) this] obtain c where c: "getitem ?d col = Some c" ..
  from getitem_in[OF c] have cin: "c \<in> set (columns ?d)" and cn: "cname c = col" by simp_all
  obtain c' n t where ic: "impute_column c = (c', n, t)" by (cases "impute_column c") auto
  then have c': "c' = ?f c" by simp
  let ?d1 = "setitem col (cdata c') ?d"
  let ?h1 = "h[df := ?d1]"
  have at: "?h1 ! df = ?d1" using Cons.prems(1) by simp
  have d1: "?d1 = ?d\<lparr>columns := map (\<lambda>x. if cname x = col then ?f x else x) (columns ?d)\<rparr>"
    using setitem_apply[OF Cons.prems(2) cin, of ?f] cn c' by simp
  have p1: "df < length ?h1" using Cons.prems(1) by simp
  have p2: "distinct (column_names (?h1 ! df))" using Cons.prems(2) at by simp
  have p3: "distinct cols" using Cons.prems(3) by simp
  have p4: "set cols \<subseteq> set (column_names (?h1 ! df))" using Cons.prems(4) at by simp
  note ih = Cons.IH[OF p1 p2 p3 p4]
  from Cons.prems(3) have notin: "col \<notin> set cols" by simp
  have cols_eq: "map (\<lambda>x. if cname x \<in> set cols then ?f x else x) (columns ?d1)
                 = map (\<lambda>x. if cname x \<in> set (col # cols) then ?f x else x) (columns ?d)"
    using notin by (simp add: d1 comp_def)
  have frame_eq: "(?h1 ! df)\<lparr>columns := map (\<lambda>x. if cname x \<in> set cols then ?f x else x)
                                            (columns (?h1 ! df))\<rparr>
                  = ?d\<lparr>columns := map (\<lambda>x. if cname x \<in> set (col # cols) then ?f x else x)
                                     (columns ?d)\<rparr>"
    by (simp only: at cols_eq) (simp add: setitem_def)
  have ge: "getitem ?d1 l = getitem ?d l" if "l \<in> set cols" for l
  proof -
    from that notin have "l \<noteq> col" by auto
    then show ?thesis by (rule getitem_setitem_other)
  qed
  have get_eq: "map (\<lambda>l. the (getitem (?h1 ! df) l)) cols = map (\<lambda>l. the (getitem ?d l)) cols"
    by (intro map_cong) (simp_all add: at ge)
  obtain cs' n' t' where rest: "impute_loop (map (\<lambda>l. the (getitem ?d l)) cols) = (cs', n', t')"
    by (cases "impute_loop (map (\<lambda>l. the (getitem ?d l)) cols)") auto
  have rec: "impute_loop_on df cols ?h1 =
               (h[df := ?d\<lparr>columns := map (\<lambda>x. if cname x \<in> set (col # cols) then ?f x else x)
                                              (columns ?d)\<rparr>],
                Inr (n', t'))"
    using ih by (simp only: frame_eq get_eq rest) simp
  show ?case
    using c ic rec rest by simp
qed

lemma map_the_getitem:
  assumes "distinct (column_names d)"
  shows "map (\<lambda>l. the (getitem d l)) (column_names d) = columns d"
proof -
  have "map (\<lambda>c. the (getitem d (cname c))) (columns d) = map (\<lambda>c. c) (columns d)"
    using getitem_Some[OF assms] by (intro map_cong) auto
  then show ?thesis by (simp add: column_names_def comp_def)
qed

lemma impute_loop_on_columns:
  assumes "df < length h" and "distinct (column_names (h ! df))"
  shows "impute_loop_on df (column_names (h ! df)) h =
           (h[df := (h ! df)\<lparr>columns := fst (impute_loop (columns (h ! df)))\<rparr>],
            Inr (snd (impute_loop (columns (h ! df)))))"
proof -
  have "map (\<lambda>x. if cname x \<in> set (column_names (h ! df)) then fst (impute_column x) else x)
            (columns (h ! df))
        = map (\<lambda>x. fst (impute_column x)) (columns (h ! df))"
    by (intro map_cong) (auto simp: column_names_def)
  with impute_loop_on_labels[OF assms assms(2) subset_refl]
  show ?thesis by (simp add: fst_impute_loop map_the_getitem[OF assms(2)])
qed

lemma repeated_name:
  assumes "\<not> distinct (map f cs)"
  shows "\<exists>c\<in>set cs. 2 \<le> length (filter (\<lambda>y. f y = f c) cs)"
  using assms
proof (induction cs)
  case Nil
  then show ?case by simp
next
  case (Cons a cs)
  show ?case
  proof (cases "f a \<in> f ` set cs")
    case True
    then obtain b where b: "b \<in> set cs" "f b = f a" by auto
    then have "filter (\<lambda>y. f y = f a) cs \<noteq> []" by (auto simp: filter_empty_conv)
    then have "1 \<le> length (filter (\<lambda>y. f y = f a) cs)" by (cases "filter (\<lambda>y. f y = f a) cs") auto
    then show ?thesis by (intro bexI[of _ a]) simp_all
  next
    case False
    with Cons.prems have "\<not> distinct (map f cs)" by simp
    from Cons.IH[OF this] obtain c where c: "c \<in> set cs" "2 \<le> length (filter (\<lambda>y. f y = f c) cs)"
      by auto
    then show ?thesis by (intro bexI[of _ c]) auto
  qed
qed

lemma getitem_repeated:
  assumes "\<not> distinct (column_names d)"
  shows "\<exists>l\<in>set (column_names d). getitem d l = None"
proof -
  from assms have "\<not> distinct (map cname (columns d))" by (simp add: column_names_def)
  from repeated_name[OF this] obtain c where
    c: "c \<in> set (columns d)" "2 \<le> length (filter (\<lambda>y. cname y = cname c) (columns d))" by auto
  from c(2) have "getitem d (cname c) = None"
    by (cases "filter (\<lambda>y. cname y = cname c) (columns d)" rule: remdups_adj.cases)
       (simp_all add: getitem_def)
  with c(1) show ?thesis by (intro bexI[of _ "cname c"]) (simp_all add: column_names_def)
qed

lemma impute_loop_on_raises:
  assumes "df < length h" and "l \<in> set ls" and "getitem (h ! df) l = None"
  shows "snd (impute_loop_on df ls h) = Inl ValueError"
  using assms
proof (induction ls arbitrary: h)
  case Nil
  then show ?case by simp
next
  case (Cons col cols)
  show ?case
  proof (cases "getitem (h ! df) col")
    case None
    then show ?thesis by simp
  next
    case (Some c)
    with Cons.prems(3) have ne: "l \<noteq> col" by auto
    with Cons.prems(2) have lin: "l \<in> set cols" by simp
    obtain c' n t where ic: "impute_column c = (c', n, t)" by (cases "impute_column c") auto
    let ?h1 = "h[df := setitem col (cdata c') (h ! df)]"
    have p1: "df < length ?h1" using Cons.prems(1) by simp
    have p3: "getitem (?h1 ! df) l = None"
      using Cons.prems(1,3) ne by (simp add: getitem_setitem_other)
    from Cons.IH[OF p1 lin p3] have "snd (impute_loop_on df cols ?h1) = Inl ValueError" .
    then show ?thesis
      using Some ic by (cases "impute_loop_on df cols ?h1") (auto split: sum.splits)
  qed
qed

lemma standardize_loop_on_labels:
  assumes "df < length h" and "distinct (column_names (h ! df))"
    and "distinct ls" and "set ls \<subseteq> set (column_names (h ! df))"
  shows "standardize_loop_on env df ls h =
           h[df := (h ! df)\<lparr>columns := map (\<lambda>x. if cname x \<in> set ls then standardize_column env x else x)
                                          (columns (h ! df))\<rparr>]"
  using assms
proof (induction ls arbitrary: h)
  case Nil
  then show ?case by simp
next
  case (Cons col cols)
  let ?d = "h ! df"
  let ?f = "standardize_column env"
  from Cons.prems(4) have "col \<in> set (column_names ?d)" by simp
  from getitem_names[OF Cons.prems(2) this] obtain c where c: "getitem ?d col = Some c" ..
  from getitem_in[OF c] have cin: "c \<in> set (columns ?d)" and cn: "cname c = col" by simp_all
  let ?d1 = "setitem col (cdata (?f c)) ?d"
  let ?h1 = "h[df := ?d1]"
  have at: "?h1 ! df = ?d1" using Cons.prems(1) by simp
  have d1: "?d1 = ?d\<lparr>columns := map (\<lambda>x. if cname x = col then ?f x else x) (columns ?d)\<rparr>"
    using setitem_apply[OF Cons.prems(2) cin, of ?f] cn by simp
  have p1: "df < length ?h1" using Cons.prems(1) by simp
  have p2: "distinct (column_names (?h1 ! df))" using Cons.prems(2) at by simp
  have p3: "distinct cols" using Cons.prems(3) by simp
  have p4: "set cols \<subseteq> set (column_names (?h1 ! df))" using Cons.prems(4) at by simp
  note ih = Cons.IH[OF p1 p2 p3 p4]
  from Cons.prems(3) have notin: "col \<notin> set cols" by simp
  have cols_eq: "map (\<lambda>x. if cname x \<in> set cols then ?f x else x) (columns ?d1)
                 = map (\<lambda>x. if cname x \<in> set (col # cols) then ?f x else x) (columns ?d)"
    using notin by (simp add: d1 comp_def)
  have frame_eq: "(?h1 ! df)\<lparr>columns := map (\<lambda>x. if cname x \<in> set cols then ?f x else x)
                                            (columns (?h1 ! df))\<rparr>
                  = ?d\<lparr>columns := map (\<lambda>x. if cname x \<in> set (col # cols) then ?f x else x)
                                     (columns ?d)\<rparr>"
    by (simp only: at cols_eq) (simp add: setitem_def)
  have "standardize_loop_on env df cols ?h1 =
               h[df := ?d\<lparr>columns := map (\<lambda>x. if cname x \<in> set (col # cols) then ?f x else x)
                                              (columns ?d)\<rparr>]"
    using ih by (simp only: frame_eq) simp
  then show ?case
    using c by simp
qed

lemma standardize_loop_on_columns:
  assumes "df < length h" and "distinct (column_names (h ! df))"
  shows "standardize_loop_on env df (column_names (h ! df)) h =
           h[df := (h ! df)\<lparr>columns := map (standardize_column env) (columns (h ! df))\<rparr>]"
proof -
  have "map (\<lambda>x. if cname x \<in> set (column_names (h ! df)) then standardize_column env x else x)
            (columns (h ! df))
        = map (standardize_column env) (columns (h ! df))"
    by (intro map_cong) (auto simp: column_names_def)
  with standardize_loop_on_labels[OF assms assms(2) subset_refl, of env]
  show ?thesis by simp
qed

subsection \<open>The two functions on the store\<close>

text \<open>
  The Cleaner changes no object that exists when it is called: its first assignment
  rebinds \<open>df\<close> to a new object and every later write goes to objects it has
  created.
\<close>

lemma clean_dataset_on_frame:
  assumes "r' < length h"
  shows "fst (clean_dataset_on env h r) ! r' = h ! r'"
proof -
  let ?h0 = "h @ [drop_duplicates (h ! r)]"
  obtain h1 res where il: "impute_loop_on (length h) (column_names (h ! r)) ?h0 = (h1, res)"
    by (cases "impute_loop_on (length h) (column_names (h ! r)) ?h0") auto
  from impute_loop_on_shape[OF il] assms
  have l1: "length h1 = Suc (length h)" and a1: "h1 ! r' = h ! r'"
    by (simp_all add: nth_append)
  show ?thesis
  proof (cases res)
    case (Inl e)
    with il a1 show ?thesis by (simp add: clean_dataset_on_def new_frame_def Let_def)
  next
    case (Inr p)
    let ?h2 = "standardize_loop_on env (length h) (column_names (h1 ! length h)) h1"
    have l2: "length ?h2 = Suc (length h)" using l1 by simp
    have a2: "?h2 ! r' = h ! r'" using a1 assms by (simp add: standardize_loop_on_other)
    show ?thesis
      using il Inr l2 a2 assms
      by (cases p)
         (simp add: clean_dataset_on_def new_frame_def Let_def nth_append split: prod.splits)
  qed
qed

lemma clean_dataset_on_returns:
  assumes "distinct (column_names (h ! r))"
  shows "\<exists>h' r' s. clean_dataset_on env h r = (h', Inr (r', s)) \<and> r' < length h' \<and>
                   length h \<le> r' \<and> clean_dataset env (h ! r) = Inr (h' ! r', s)"
proof -
  let ?dd = "drop_duplicates (h ! r)"
  let ?h0 = "h @ [?dd]"
  let ?d1 = "?dd\<lparr>columns := fst (impute_loop (columns ?dd))\<rparr>"
  let ?h1 = "h @ [?d1]"
  let ?d2 = "standardized env (h ! r)"
  let ?h2 = "h @ [?d2]"
  have lt: "length h < length ?h0" by simp
  have dn0: "distinct (column_names (?h0 ! length h))" using assms by simp
  have il: "impute_loop_on (length h) (column_names (h ! r)) ?h0
            = (?h1, Inr (snd (impute_loop (columns ?dd))))"
    using impute_loop_on_columns[OF lt dn0] by simp
  have lt1: "length h < length ?h1" by simp
  have n1: "column_names ?d1 = column_names (h ! r)"
    using column_names_drop_duplicates[of "h ! r"]
    by (simp add: column_names_def fst_impute_loop comp_def)
  have dn1: "distinct (column_names (?h1 ! length h))" using assms n1 by simp
  have sl: "standardize_loop_on env (length h) (column_names (h ! r)) ?h1 = ?h2"
    using standardize_loop_on_columns[OF lt1 dn1, of env] n1
    by (simp add: standardized_def)
  obtain kept ri where rm: "remove_invalid_rows ?d2 = (kept, ri)"
    by (cases "remove_invalid_rows ?d2") auto
  have same: "numeric_cols ?d2 = [] \<Longrightarrow> kept = ?d2"
    using rm by (simp add: remove_invalid_rows_def)
  note ret = clean_dataset_returns[OF assms, of env]
  show ?thesis
  proof (cases "numeric_cols ?d2 = []")
    case True
    with same have k: "kept = ?d2" by simp
    show ?thesis
      using il sl rm True k ret n1
      by (simp add: clean_dataset_on_def new_frame_def Let_def nth_append split: prod.splits)
  next
    case False
    show ?thesis
      using il sl rm False ret n1
      by (simp add: clean_dataset_on_def new_frame_def Let_def nth_append split: prod.splits)
  qed
qed

lemma clean_dataset_on_raises:
  assumes "\<not> distinct (column_names (h ! r))"
  shows "snd (clean_dataset_on env h r) = Inl ValueError \<and> clean_dataset env (h ! r) = Inl ValueError"
proof -
  let ?h0 = "h @ [drop_duplicates (h ! r)]"
  have lt: "length h < length ?h0" by simp
  from assms have "\<not> distinct (column_names (?h0 ! length h))" by simp
  from getitem_repeated[OF this] obtain l where
    l: "l \<in> set (column_names (?h0 ! length h))" "getitem (?h0 ! length h) l = None" by auto
  from impute_loop_on_raises[OF lt l]
  have "snd (impute_loop_on (length h) (column_names (h ! r)) ?h0) = Inl ValueError" by simp
  then have a: "snd (clean_dataset_on env h r) = Inl ValueError"
    by (cases "impute_loop_on (length h) (column_names (h ! r)) ?h0")
       (simp add: clean_dataset_on_def new_frame_def Let_def)
  from assms have b: "clean_dataset env (h ! r) = Inl ValueError"
    by (simp add: clean_dataset_def Let_def)
  from a b show ?thesis by simp
qed

lemma apply_transformations_on_others:
  assumes "r' < length h" and "r' \<noteq> r"
  shows "fst (apply_transformations_on env h r s) ! r' = h ! r'"
  using assms
  by (auto simp: apply_transformations_on_def new_frame_def Let_def nth_append split: sum.splits)

lemma apply_transformations_on_argument:
  assumes "r < length h" and "total_values env (h ! r) = Inr tot"
  shows "fst (apply_transformations_on env h r s) ! r = set_total (h ! r) tot"
  using assms
  by (auto simp: apply_transformations_on_def new_frame_def Let_def nth_append split: sum.splits)

lemma apply_transformations_on_returns:
  assumes "r < length h" and "apply_transformations_on env h r s = (h', Inr (ro, rg, s'))"
  shows "apply_transformations env (h ! r) s = Inr (h' ! ro, h' ! rg, s') \<and>
         length h \<le> ro \<and> ro < length h' \<and> length h \<le> rg \<and> rg < length h'"
  using assms
  by (auto simp: apply_transformations_on_def apply_transformations_def new_frame_def Let_def
        nth_append split: sum.splits)

lemma apply_transformations_on_raises:
  assumes "r < length h"
  shows "(snd (apply_transformations_on env h r s) = Inl e) = (apply_transformations env (h ! r) s = Inl e)"
  using assms
  by (auto simp: apply_transformations_on_def apply_transformations_def new_frame_def Let_def
        nth_append split: sum.splits)


text \<open>
  The Transformer changes one existing object, the one it is called with: once the
  derived column is computed, that object carries it, also when the call raises
  later. A table that had no \<^verbatim>\<open>total\<close> column is therefore a different table after
  the call.
\<close>

lemma column_names_set_total:
  "column_names (set_total df tot) =
     (if ''total'' \<in> set (column_names df) then column_names df
      else column_names df @ [''total''])"
proof -
  have "map cname (map (\<lambda>c. if cname c = ''total'' then c\<lparr>cdata := x\<rparr> else c) cs) = map cname cs"
    for cs :: "column list" and x
    by (induction cs) auto
  then show ?thesis by (simp add: set_total_def column_names_def)
qed

lemma transformer_changes_its_argument:
  assumes "r < length h" and "total_values env (h ! r) = Inr tot"
    and "''total'' \<notin> set (column_names (h ! r))"
  shows "fst (apply_transformations_on env h r s) ! r \<noteq> h ! r"
proof -
  from assms(3) have "column_names (set_total (h ! r) tot) \<noteq> column_names (h ! r)"
    by (simp add: column_names_set_total)
  then have "set_total (h ! r) tot \<noteq> h ! r" by auto
  with apply_transformations_on_argument[OF assms(1,2)] show ?thesis by simp
qed

subsection \<open>The pipeline on the four sales, object by object\<close>

lemma sales_cleaning_on:
  "clean_dataset_on ref_env [sales_table] 0
   = ([sales_table, sales_cleaned, sales_cleaned, sales_cleaned], Inr (3, sales_report))"
  by code_simp

lemma sales_pipeline_on:
  "run_full_pipeline_on ref_env [sales_table] 0 =
     ([sales_table, sales_cleaned, sales_cleaned, sales_with_total, sales_grouped,
       sales_with_total, sales_sorted],
      Inr (3, 6, 4, sales_report))"
  by code_simp

text \<open>
  C4 holds of the Cleaner and fails on the code for the Transformer. The four sales
  are loaded as object 0. The Cleaner leaves object 0 as it is and returns object 3,
  the cleaned table with the three columns \<^verbatim>\<open>product\<close>, \<^verbatim>\<open>price\<close>, \<^verbatim>\<open>qty\<close>. After the
  Transformer has run on object 3, that same object has a fourth column \<^verbatim>\<open>total\<close>:
  the cleaned table given to the Transformer has changed.
\<close>

theorem transformer_adds_total_in_place:
  "clean_dataset_on ref_env [sales_table] 0
     = ([sales_table, sales_cleaned, sales_cleaned, sales_cleaned], Inr (3, sales_report)) \<and>
   snd (run_full_pipeline_on ref_env [sales_table] 0) = Inr (3, 6, 4, sales_report) \<and>
   fst (run_full_pipeline_on ref_env [sales_table] 0) ! 0 = sales_table \<and>
   fst (run_full_pipeline_on ref_env [sales_table] 0) ! 3 = sales_with_total \<and>
   column_names sales_cleaned = [''product'', ''price'', ''qty''] \<and>
   column_names sales_with_total = [''product'', ''price'', ''qty'', ''total''] \<and>
   sales_with_total \<noteq> sales_cleaned"
proof -
  have a: "column_names sales_cleaned = [''product'', ''price'', ''qty'']"
    by (simp add: sales_cleaned_def column_names_def)
  have b: "column_names sales_with_total = [''product'', ''price'', ''qty'', ''total'']"
    by (simp add: sales_with_total_def column_names_def)
  from a b have c: "sales_with_total \<noteq> sales_cleaned" by auto
  from sales_cleaning_on a b c show ?thesis by (simp add: sales_pipeline_on)
qed

section \<open>Running the Cleaner again\<close>

lemma survey_first_run:
  "clean_dataset ref_env survey_table = Inr (survey_once, unchanged_report 4)"
  by code_simp

lemma survey_second_run:
  "clean_dataset ref_env survey_once =
     Inr (survey_twice,
          \<lparr>rows_before = 4, rows_after_cleaning = 3, rows_after_transform = 3,
           removed_duplicates = 1, filled_missing_numeric = 1, filled_missing_text = 0,
           removed_invalid_rows = 0\<rparr>)"
  by code_simp

text \<open>
  C6, as stated, fails. One run of the Cleaner on the survey lower-cases the names,
  which makes the first two rows equal, and coerces the scores to numbers, which makes
  the score that is not a number missing: the cleaned table has a missing cell. A
  second run on that table removes one duplicate row and fills one missing number;
  it returns a different table, with \<^verbatim>\<open>removed_duplicates = 1\<close> and
  \<^verbatim>\<open>filled_missing_numeric = 1\<close>.
\<close>

theorem second_run_changes_table:
  "clean_dataset ref_env survey_table = Inr (survey_once, unchanged_report 4) \<and>
   clean_dataset ref_env survey_once =
     Inr (survey_twice,
          \<lparr>rows_before = 4, rows_after_cleaning = 3, rows_after_transform = 3,
           removed_duplicates = 1, filled_missing_numeric = 1, filled_missing_text = 0,
           removed_invalid_rows = 0\<rparr>) \<and>
   survey_twice \<noteq> survey_once \<and>
   rows_of survey_once =
     [[Text ''ann'', Num 1], [Text ''ann'', Num 1], [Text ''bo'', Num 2], [Text ''cy'', Missing]]"
proof (intro conjI)
  show "survey_twice \<noteq> survey_once"
    by (simp add: survey_twice_def survey_once_def)
  show "rows_of survey_once =
     [[Text ''ann'', Num 1], [Text ''ann'', Num 1], [Text ''bo'', Num 2], [Text ''cy'', Missing]]"
    by code_simp
qed (rule survey_first_run, rule survey_second_run)

lemma duplicated_from_distinct:
  assumes "distinct rs" and "set rs \<inter> set seen = {}"
  shows "duplicated_from seen rs = map (\<lambda>r. False) rs"
  using assms by (induction rs arbitrary: seen) auto

lemma mask_select_all:
  assumes "length xs \<le> length ks" and "\<forall>k\<in>set ks. k"
  shows "mask_select ks xs = xs"
  using assms
proof (induction xs arbitrary: ks)
  case Nil
  then show ?case by (simp add: mask_select_def)
next
  case (Cons x xs)
  then obtain k ks' where ks: "ks = k # ks'" by (cases ks) auto
  with Cons.prems have "mask_select ks' xs = xs" by (intro Cons.IH) auto
  with ks Cons.prems show ?case by (simp add: mask_select_def)
qed

lemma series_select_all:
  assumes "slen s \<le> length ks" and "\<forall>k\<in>set ks. k"
  shows "series_select ks s = s"
  using assms by (cases s) (simp_all add: mask_select_all)

lemma select_rows_all:
  assumes "rect df" and "len df \<le> length ks" and "\<forall>k\<in>set ks. k"
  shows "select_rows ks df = df"
proof -
  have "mask_select ks (index df) = index df"
    using assms(2,3) by (intro mask_select_all) (simp_all add: len_def)
  moreover have "map (\<lambda>c. c\<lparr>cdata := series_select ks (cdata c)\<rparr>) (columns df) = columns df"
  proof (rule map_idI)
    fix c assume "c \<in> set (columns df)"
    with assms(1) have "slen (cdata c) = len df" by (simp add: rect_def list_all_iff)
    with assms(2,3) have "series_select ks (cdata c) = cdata c"
      by (intro series_select_all) simp_all
    then show "c\<lparr>cdata := series_select ks (cdata c)\<rparr> = c" by simp
  qed
  ultimately show ?thesis by (simp add: select_rows_def)
qed

lemma foldr_max_length:
  assumes "xss \<noteq> []" and "\<forall>xs\<in>set xss. length xs = n"
  shows "foldr (\<lambda>xs. max (length xs)) xss 0 = n"
  using assms
proof (induction xss)
  case Nil
  then show ?case by simp
next
  case (Cons a xss)
  then show ?case by (cases "xss = []") auto
qed

lemma length_cells_of [simp]: "length (cells_of s) = slen s"
  by (cases s) simp_all

lemma length_rows_of:
  assumes "rect df" and "columns df \<noteq> []"
  shows "length (rows_of df) = len df"
proof -
  have "\<forall>xs\<in>set (map (\<lambda>c. cells_of (cdata c)) (columns df)). length xs = len df"
    using assms(1) by (auto simp: rect_def list_all_iff)
  with assms(2) show ?thesis
    by (simp add: rows_of_def length_transpose foldr_max_length)
qed

lemma drop_duplicates_distinct:
  assumes "rect df" and "distinct (rows_of df)"
  shows "drop_duplicates df = df"
proof (cases "index df = [] \<or> columns df = []")
  case True
  then show ?thesis by (simp add: drop_duplicates_def)
next
  case False
  from assms(2) have "duplicated df = map (\<lambda>r. False) (rows_of df)"
    by (simp add: duplicated_def duplicated_from_distinct)
  then have keep: "map Not (duplicated df) = map (\<lambda>r. True) (rows_of df)" by simp
  have "select_rows (map (\<lambda>r. True) (rows_of df)) df = df"
    using assms(1) False by (intro select_rows_all) (simp_all add: length_rows_of)
  with False keep show ?thesis by (simp add: drop_duplicates_def)
qed

lemma clean_column_impute:
  assumes "clean_column env c"
  shows "impute_column c = (c, 0, 0)"
proof (cases "cdata c")
  case (NumS xs)
  with assms have "list_all (\<lambda>x. case x of None \<Rightarrow> False | Some v \<Rightarrow> 0 \<le> v) xs"
    by (simp add: clean_column_def)
  then have "\<not> isna_any xs" by (auto simp: isna_any_def list_all_iff)
  with NumS show ?thesis by (simp add: impute_column_def)
next
  case (ObjS xs)
  with assms show ?thesis by (simp add: clean_column_def impute_column_def)
next
  case (DtS xs)
  with assms show ?thesis by (simp add: clean_column_def)
qed

lemma clean_columns_impute_loop:
  assumes "list_all (clean_column env) cs"
  shows "impute_loop cs = (cs, 0, 0)"
  using assms
proof (induction cs)
  case Nil
  then show ?case by simp
next
  case (Cons c cs)
  then have "impute_column c = (c, 0, 0)" and "impute_loop cs = (cs, 0, 0)"
    by (simp_all add: clean_column_impute[of env])
  then show ?case by simp
qed

lemma clean_column_standardize:
  assumes "clean_column env c"
  shows "standardize_column env c = c"
proof (cases "cdata c")
  case (NumS xs)
  with assms show ?thesis by (simp add: clean_column_def standardize_column_def)
next
  case (ObjS xs)
  with assms have nd: "\<not> is_datelike (cname c)" and lo: "astype_str_lower xs = xs"
    and nn: "\<not> notna_mean_above (to_numeric env (ObjS xs))"
    by (simp_all add: clean_column_def)
  have "c\<lparr>cdata := ObjS xs\<rparr> = c" using ObjS by simp
  with nd lo nn ObjS show ?thesis by (simp add: standardize_column_def Let_def)
next
  case (DtS xs)
  with assms show ?thesis by (simp add: clean_column_def)
qed

lemma any_axis1_all_false:
  assumes "ms \<noteq> []" and "\<forall>m\<in>set ms. m = replicate n False"
  shows "any_axis1 ms = replicate n False"
  using assms
proof (induction ms rule: any_axis1.induct)
  case 1
  then show ?case by simp
next
  case (2 m)
  then show ?case by simp
next
  case (3 m v va)
  then have "any_axis1 (v # va) = replicate n False" by simp
  moreover from 3 have "m = replicate n False" by simp
  moreover have "map2 (\<or>) (replicate n False) (replicate n False) = replicate n False"
    by (induction n) simp_all
  ultimately show ?case by simp
qed

lemma clean_column_negative_mask:
  assumes "clean_column env c"
  shows "negative_mask (cdata c) = replicate (slen (cdata c)) False"
proof (cases "cdata c")
  case (NumS xs)
  with assms have "list_all (\<lambda>x. case x of None \<Rightarrow> False | Some v \<Rightarrow> 0 \<le> v) xs"
    by (simp add: clean_column_def)
  then have "map (\<lambda>x. case x of None \<Rightarrow> False | Some v \<Rightarrow> v < 0) xs = replicate (length xs) False"
    by (induction xs) (auto split: option.splits)
  with NumS show ?thesis by simp
next
  case (ObjS xs)
  then show ?thesis by (simp add: map_replicate_const)
next
  case (DtS xs)
  then show ?thesis by (simp add: map_replicate_const)
qed

lemma clean_remove_invalid_rows:
  assumes "rect df" and "list_all (clean_column env) (columns df)"
  shows "remove_invalid_rows df = (df, 0)"
proof (cases "numeric_cols df = []")
  case True
  then show ?thesis by (simp add: remove_invalid_rows_def)
next
  case False
  have "\<forall>m\<in>set (map (\<lambda>c. negative_mask (cdata c)) (numeric_cols df)). m = replicate (len df) False"
  proof
    fix m assume "m \<in> set (map (\<lambda>c. negative_mask (cdata c)) (numeric_cols df))"
    then obtain c where c: "c \<in> set (columns df)" "m = negative_mask (cdata c)"
      by (auto simp: numeric_cols_def)
    with assms have "clean_column env c" "slen (cdata c) = len df"
      by (simp_all add: rect_def list_all_iff)
    with c show "m = replicate (len df) False" by (simp add: clean_column_negative_mask[of env])
  qed
  with False have mi: "mask_invalid df = replicate (len df) False"
    unfolding mask_invalid_def by (intro any_axis1_all_false) simp_all
  have "select_rows (map Not (mask_invalid df)) df = df"
    using assms(1) by (intro select_rows_all) (simp_all add: mi)
  with False mi show ?thesis by (simp add: remove_invalid_rows_def)
qed

lemma clean_rename_columns:
  assumes "list_all (clean_column env) (columns df)"
  shows "rename_columns df = df"
proof -
  have "map (\<lambda>c. c\<lparr>cname := to_snake_case (cname c)\<rparr>) (columns df) = columns df"
  proof (rule map_idI)
    fix c assume "c \<in> set (columns df)"
    with assms have "to_snake_case (cname c) = cname c"
      by (simp add: list_all_iff clean_column_def)
    then show "c\<lparr>cname := to_snake_case (cname c)\<rparr> = c" by simp
  qed
  then show ?thesis by (simp add: rename_columns_def)
qed

text \<open>
  C6, amended. Running the Cleaner on a table that is already clean (well formed, no
  two equal rows, no missing cell, no negative number, text in lower case and not
  mostly numeric, no datetime column, labels normalised and not date-like) changes
  nothing: it returns an equal table, \<^verbatim>\<open>removed_duplicates = 0\<close>, both filled-missing
  counts 0, \<^verbatim>\<open>removed_invalid_rows = 0\<close>, and the row counts before and after are
  equal. The output of a run of the Cleaner need not be clean in this sense.
\<close>

theorem cleaner_fixes_clean_tables:
  assumes "already_clean env df"
  shows "clean_dataset env df = Inr (df, unchanged_report (len df))"
proof -
  from assms have dn: "distinct (column_names df)" and re: "rect df"
    and dr: "distinct (rows_of df)" and cc: "list_all (clean_column env) (columns df)"
    by (simp_all add: already_clean_def wf_df_rect)
  have dd: "drop_duplicates df = df" by (rule drop_duplicates_distinct[OF re dr])
  have il: "impute_loop (columns df) = (columns df, 0, 0)"
    by (rule clean_columns_impute_loop[OF cc])
  have "map (standardize_column env) (columns df) = columns df"
    using cc by (intro map_idI) (simp add: list_all_iff clean_column_standardize[of env])
  then have st: "standardized env df = df" by (simp add: standardized_def dd il)
  have ri: "remove_invalid_rows df = (df, 0)" by (rule clean_remove_invalid_rows[OF re cc])
  have rn: "rename_columns df = df" by (rule clean_rename_columns[OF cc])
  show ?thesis
    by (simp add: clean_dataset_returns[OF dn] st ri rn dd il unchanged_report_def)
qed

lemma survey_twice_clean: "already_clean ref_env survey_twice"
  by code_simp

text \<open>The survey after two runs is clean, and a third run returns it unchanged.\<close>

theorem cleaner_fixes_clean_tables_witness:
  "already_clean ref_env survey_twice \<and>
   clean_dataset ref_env survey_twice = Inr (survey_twice, unchanged_report 3)"
proof -
  have "len survey_twice = 3" by (simp add: survey_twice_def len_def)
  with cleaner_fixes_clean_tables[OF survey_twice_clean] survey_twice_clean
  show ?thesis by simp
qed

end
